theory Spec2Isabelle
  imports Main "HOL-Library.AList"
begin

section \<open>Python values shared by the modelled code\<close>

text \<open>
  Exceptions of the modelled Python code are values.  \<open>VdError\<close> stands for the
  exception that visidata's \<^verbatim>\<open>error()\<close> and \<^verbatim>\<open>fail()\<close> raise.
\<close>

datatype py_error =
    ValueError
  | NameError string
  | KeyError
  | IndexError
  | AttributeError
  | VdError string

text \<open>
  \<^verbatim>\<open>xs[a:b]\<close>: a negative bound counts from the end, and both bounds are clamped
  to the length.
\<close>

definition py_slice :: "'a list \<Rightarrow> int \<Rightarrow> int \<Rightarrow> 'a list" where
  "py_slice xs a b =
     (let n = int (length xs);
          lo = (if a < 0 then max (a + n) 0 else min a n);
          hi = (if b < 0 then max (b + n) 0 else min b n)
      in take (nat (hi - lo)) (drop (nat lo) xs))"

text \<open>\<^verbatim>\<open>min(xs)\<close> and \<^verbatim>\<open>max(xs)\<close> raise \<^verbatim>\<open>ValueError\<close> on an empty sequence.\<close>

fun py_min :: "int list \<Rightarrow> py_error + int" where
  "py_min [] = Inl ValueError"
| "py_min (x # xs) = Inr (fold min xs x)"

fun py_max :: "int list \<Rightarrow> py_error + int" where
  "py_max [] = Inl ValueError"
| "py_max (x # xs) = Inr (fold max xs x)"

text \<open>\<^verbatim>\<open>len(s.split('\n'))\<close>: one more than the number of line feeds in \<open>s\<close>.\<close>

definition split_len :: "string \<Rightarrow> int" where
  "split_len s = int (length (filter (\<lambda>c. c = CHR 0x0A) s)) + 1"


section \<open>Columns, the object store and sheets\<close>

text \<open>
  Modelled from the spec: the \<^verbatim>\<open>Column\<close> class is not under src/.  The spec's data
  model gives a column a name (stacked headers joined by line feeds), a declared type,
  a display width that may be unset, a \<open>hidden\<close> flag, a \<open>keycol\<close> flag and a
  non-owning reference to its sheet; \<^verbatim>\<open>drawRow\<close> reads its \<open>height\<close>.
\<close>

record column =
  name :: string
  ctype :: string
  width :: "int option"
  hidden :: bool
  keycol :: bool
  height :: int
  col_sheet :: "nat option"

text \<open>
  Columns are Python objects: a sheet's \<^verbatim>\<open>columns\<close> list holds references, the
  membership test \<^verbatim>\<open>col in self.keyCols\<close> compares identities, and
  \<^verbatim>\<open>calcColLayout\<close> writes \<^verbatim>\<open>col.width\<close> through the reference.  The store maps
  each address to the object's fields; \<open>next_addr\<close> is the first address no object
  occupies yet.
\<close>

type_synonym addr = nat

record store =
  col_at :: "addr \<Rightarrow> column"
  next_addr :: addr

text \<open>
  \<^verbatim>\<open>Sheet.rows\<close> is the empty tuple until the first reload and a list afterwards
  (\<^verbatim>\<open>__init__\<close>, \<^verbatim>\<open>reload\<close>).
\<close>

datatype 'r rowseq = PyTuple "'r list" | PyList "'r list"

fun items :: "'r rowseq \<Rightarrow> 'r list" where
  "items (PyTuple xs) = xs"
| "items (PyList xs) = xs"

text \<open>
  The attributes of a \<^verbatim>\<open>Sheet\<close> set in \<^verbatim>\<open>__init__\<close>.  \<open>windowWidth\<close> and
  \<open>windowHeight\<close> are properties of the base class (the size of the screen the sheet
  is drawn on) and \<open>sid\<close> is the identity of the sheet object.  The layout
  dictionaries keep their insertion order, as Python's do.
\<close>

record 'r sheet =
  sid :: nat
  rows :: "'r rowseq"
  columns :: "addr list"
  cursorRowIndex :: int
  cursorVisibleColIndex :: int
  topRowIndex :: int
  leftVisibleColIndex :: int
  rightVisibleColIndex :: int
  rowLayout :: "(int \<times> int \<times> int) list"
  visibleColLayout :: "(int \<times> int \<times> int) list"
  windowWidth :: int
  windowHeight :: int

text \<open>The options the modelled code reads (\<^verbatim>\<open>options.disp_more_left\<close>, ...).\<close>

record options =
  disp_more_left :: string
  disp_more_right :: string
  disp_column_sep :: string
  default_width :: int
  textwrap_cells :: bool
  replay_movement :: bool
  rowkey_prefix :: string
  cmdlog_histfile :: string

text \<open>
  The memoised properties \<^verbatim>\<open>keyCols\<close>, \<^verbatim>\<open>visibleCols\<close> and \<^verbatim>\<open>nHeaderRows\<close> are modelled
  at their freshly computed value, the one they have after \<^verbatim>\<open>vd.clear_caches()\<close>,
  which \<^verbatim>\<open>draw\<close> calls first.
\<close>

definition nRows :: "'r sheet \<Rightarrow> int" where
  "nRows s = int (length (items (rows s)))"

definition keyCols :: "'r sheet \<Rightarrow> store \<Rightarrow> addr list" where
  "keyCols s st = filter (\<lambda>c. keycol (col_at st c) \<and> \<not> hidden (col_at st c)) (columns s)"

definition visibleCols :: "'r sheet \<Rightarrow> store \<Rightarrow> addr list" where
  "visibleCols s st =
     keyCols s st @ filter (\<lambda>c. \<not> hidden (col_at st c) \<and> \<not> keycol (col_at st c)) (columns s)"

definition nVisibleCols :: "'r sheet \<Rightarrow> store \<Rightarrow> int" where
  "nVisibleCols s st = int (length (visibleCols s st))"

definition nHeaderRows :: "'r sheet \<Rightarrow> store \<Rightarrow> int" where
  "nHeaderRows s st =
     (case visibleCols s st of
        [] \<Rightarrow> 0
      | c # cs \<Rightarrow> fold max (map (\<lambda>a. split_len (name (col_at st a))) cs)
                   (split_len (name (col_at st c))))"

definition nFooterRows :: int where
  "nFooterRows = 1"

definition nVisibleRows :: "'r sheet \<Rightarrow> store \<Rightarrow> int" where
  "nVisibleRows s st =
     (if length (rowLayout s) \<noteq> 0 then int (length (rowLayout s))
      else windowHeight s - nHeaderRows s st - nFooterRows)"

definition visibleRows :: "'r sheet \<Rightarrow> store \<Rightarrow> 'r list" where
  "visibleRows s st =
     py_slice (items (rows s)) (topRowIndex s) (topRowIndex s + nVisibleRows s st)"


section \<open>Column layout: \<^verbatim>\<open>Sheet.calcColLayout\<close>\<close>

text \<open>
  The local variables of the \<^verbatim>\<open>for\<close> loop, with the store the loop writes column
  widths to.
\<close>

record lstate =
  l_store :: store
  l_layout :: "(int \<times> int \<times> int) list"
  l_x :: int
  l_vcolidx :: nat

text \<open>
  One pass of the loop body up to the \<^verbatim>\<open>break\<close> test.  \<open>getMaxWidth\<close> is
  \<^verbatim>\<open>Column.getMaxWidth\<close> (not under src/), \<open>vcols\<close>, \<open>kcols\<close> and \<open>vrows\<close> are
  \<^verbatim>\<open>self.visibleCols\<close>, \<^verbatim>\<open>self.keyCols\<close> and \<^verbatim>\<open>self.visibleRows\<close>.
\<close>

definition calcColLayout_body ::
  "options \<Rightarrow> (column \<Rightarrow> 'r list \<Rightarrow> int) \<Rightarrow> 'r sheet \<Rightarrow> addr list \<Rightarrow> addr list \<Rightarrow> 'r list
     \<Rightarrow> nat \<Rightarrow> lstate \<Rightarrow> lstate" where
  "calcColLayout_body opts getMaxWidth s vcols kcols vrows vcolidx ls =
     (let minColWidth = int (length (disp_more_left opts)) + int (length (disp_more_right opts));
          sepColWidth = int (length (disp_column_sep opts));
          winWidth = windowWidth s;
          c = vcols ! vcolidx;
          st = l_store ls;
          col = col_at st c;
          st1 = (if width col = None \<and> length vrows > 0 then
                   (let w0 = getMaxWidth col vrows + minColWidth;
                        w1 = (if int vcolidx \<noteq> int (length vcols) - 1
                              then min w0 (default_width opts) else w0)
                    in st\<lparr>col_at := (col_at st)(c := col\<lparr>width := Some w1\<rparr>)\<rparr>)
                 else st);
          width0 = (case width (col_at st1 c) of Some w \<Rightarrow> w | None \<Rightarrow> default_width opts);
          width1 = (if c \<in> set kcols then max width0 1 else width0);
          x = l_x ls
      in if c \<in> set kcols \<or> int vcolidx \<ge> leftVisibleColIndex s
         then ls\<lparr>l_store := st1,
                 l_layout := AList.update (int vcolidx) (x, min width1 (winWidth - x)) (l_layout ls),
                 l_x := x + width1 + sepColWidth,
                 l_vcolidx := vcolidx\<rparr>
         else ls\<lparr>l_store := st1, l_vcolidx := vcolidx\<rparr>)"

text \<open>
  \<^verbatim>\<open>for vcolidx in range(0, self.nVisibleCols): ...; if x > winWidth-1: break\<close>,
  over the indices still to visit.
\<close>

fun calcColLayout_for ::
  "options \<Rightarrow> (column \<Rightarrow> 'r list \<Rightarrow> int) \<Rightarrow> 'r sheet \<Rightarrow> addr list \<Rightarrow> addr list \<Rightarrow> 'r list
     \<Rightarrow> nat list \<Rightarrow> lstate \<Rightarrow> lstate" where
  "calcColLayout_for opts getMaxWidth s vcols kcols vrows [] ls = ls"
| "calcColLayout_for opts getMaxWidth s vcols kcols vrows (i # idxs) ls =
     (let ls' = calcColLayout_body opts getMaxWidth s vcols kcols vrows i ls
      in if l_x ls' > windowWidth s - 1 then ls'
         else calcColLayout_for opts getMaxWidth s vcols kcols vrows idxs ls')"

definition calcColLayout ::
  "options \<Rightarrow> (column \<Rightarrow> 'r list \<Rightarrow> int) \<Rightarrow> 'r sheet \<Rightarrow> store \<Rightarrow> 'r sheet \<times> store" where
  "calcColLayout opts getMaxWidth s st =
     (let vcols = visibleCols s st;
          ls = calcColLayout_for opts getMaxWidth s vcols (keyCols s st) (visibleRows s st)
                 [0 ..< length vcols]
                 \<lparr>l_store = st, l_layout = [], l_x = 0, l_vcolidx = 0\<rparr>
      in (s\<lparr>visibleColLayout := l_layout ls, rightVisibleColIndex := int (l_vcolidx ls)\<rparr>,
          l_store ls))"


text \<open>
  The loop in closed form, for the statement of what it stores.  \<open>layout_width\<close> is
  the local \<^verbatim>\<open>width\<close> of a pass for the column \<open>c\<close>: \<^verbatim>\<open>col.width\<close>, or
  \<^verbatim>\<open>options.default_width\<close> if that is \<^verbatim>\<open>None\<close>, and at least 1 for a key column.
  \<open>layout_shown\<close> is the test \<^verbatim>\<open>col in self.keyCols or vcolidx >= self.leftVisibleColIndex\<close>.
  \<open>layout_x st s vcols kcols k j\<close> is what the passes \<open>k\<close> to \<open>j - 1\<close> add to \<open>x\<close>.
  \<open>delayed_width\<close> is the width that the delayed width-finding gives the column at
  index \<open>j\<close>.
\<close>

definition layout_width :: "options \<Rightarrow> store \<Rightarrow> addr list \<Rightarrow> addr \<Rightarrow> int" where
  "layout_width opts st kcols c =
     (let w = (case width (col_at st c) of Some w \<Rightarrow> w | None \<Rightarrow> default_width opts)
      in if c \<in> set kcols then max w 1 else w)"

definition layout_shown :: "'r sheet \<Rightarrow> addr list \<Rightarrow> addr list \<Rightarrow> nat \<Rightarrow> bool" where
  "layout_shown s vcols kcols j = (vcols ! j \<in> set kcols \<or> int j \<ge> leftVisibleColIndex s)"

definition layout_x ::
  "options \<Rightarrow> store \<Rightarrow> 'r sheet \<Rightarrow> addr list \<Rightarrow> addr list \<Rightarrow> nat \<Rightarrow> nat \<Rightarrow> int" where
  "layout_x opts st s vcols kcols k j =
     sum_list (map (\<lambda>i. if layout_shown s vcols kcols i
                          then layout_width opts st kcols (vcols ! i) + int (length (disp_column_sep opts))
                          else 0) [k ..< j])"

definition delayed_width ::
  "options \<Rightarrow> (column \<Rightarrow> 'r list \<Rightarrow> int) \<Rightarrow> store \<Rightarrow> addr list \<Rightarrow> 'r list \<Rightarrow> nat \<Rightarrow> int" where
  "delayed_width opts getMaxWidth st vcols vrows j =
     (let w0 = getMaxWidth (col_at st (vcols ! j)) vrows
                 + (int (length (disp_more_left opts)) + int (length (disp_more_right opts)))
      in if int j \<noteq> int (length vcols) - 1 then min w0 (default_width opts) else w0)"


section \<open>Cursor clamping: \<^verbatim>\<open>Sheet.checkCursor\<close>\<close>

text \<open>Lines 395 to 418: the clamps of the cursor and of the top row, and the vertical scroll.\<close>

definition checkCursor_rows :: "'r sheet \<Rightarrow> store \<Rightarrow> 'r sheet" where
  "checkCursor_rows s st =
     (let s1 = (if nRows s = 0 \<or> cursorRowIndex s \<le> 0 then s\<lparr>cursorRowIndex := 0\<rparr>
                else if cursorRowIndex s \<ge> nRows s then s\<lparr>cursorRowIndex := nRows s - 1\<rparr>
                else s);
          s2 = (if cursorVisibleColIndex s1 \<le> 0 then s1\<lparr>cursorVisibleColIndex := 0\<rparr>
                else if cursorVisibleColIndex s1 \<ge> nVisibleCols s1 st
                then s1\<lparr>cursorVisibleColIndex := nVisibleCols s1 st - 1\<rparr>
                else s1);
          s3 = (if topRowIndex s2 \<le> 0 then s2\<lparr>topRowIndex := 0\<rparr>
                else if topRowIndex s2 > nRows s2 - 1 then s2\<lparr>topRowIndex := nRows s2 - 1\<rparr>
                else s2);
          y = cursorRowIndex s3 - topRowIndex s3 + nHeaderRows s3 st
      in if y < nHeaderRows s3 st then s3\<lparr>topRowIndex := cursorRowIndex s3\<rparr>
         else if y > nHeaderRows s3 st + nVisibleRows s3 st - 1
         then s3\<lparr>topRowIndex := cursorRowIndex s3 - nVisibleRows s3 st + 1\<rparr>
         else s3)"

text \<open>
  The \<^verbatim>\<open>while True\<close> loop of lines 423 to 438.  The name \<^verbatim>\<open>mincolid\<close> of line 429 is
  bound nowhere, so evaluating that line raises \<^verbatim>\<open>NameError\<close>.  A run of the loop
  that never leaves it has the value \<open>None\<close>.
\<close>

partial_function (option) checkCursor_loop ::
  "options \<Rightarrow> (column \<Rightarrow> 'r list \<Rightarrow> int) \<Rightarrow> 'r sheet \<Rightarrow> store
     \<Rightarrow> (py_error + 'r sheet \<times> store) option" where
  "checkCursor_loop opts getMaxWidth s st =
     (if leftVisibleColIndex s = cursorVisibleColIndex s then Some (Inr (s, st))
      else
        (case calcColLayout opts getMaxWidth s st of (s1, st1) \<Rightarrow>
          (case py_min (map fst (visibleColLayout s1)) of
             Inl e \<Rightarrow> Some (Inl e)
           | Inr mincolidx \<Rightarrow>
              (case py_max (map fst (visibleColLayout s1)) of
                 Inl e \<Rightarrow> Some (Inl e)
               | Inr maxcolidx \<Rightarrow>
                  if cursorVisibleColIndex s1 < mincolidx then Some (Inl (NameError ''mincolid''))
                  else if cursorVisibleColIndex s1 > maxcolidx then
                    checkCursor_loop opts getMaxWidth
                      (s1\<lparr>leftVisibleColIndex := leftVisibleColIndex s1
                            + max ((maxcolidx - cursorVisibleColIndex s1) div 2) 1\<rparr>) st1
                  else
                    (case map_of (visibleColLayout s1) (cursorVisibleColIndex s1) of
                       None \<Rightarrow> Some (Inl KeyError)
                     | Some (cur_x, cur_w) \<Rightarrow>
                        if cur_x + cur_w < windowWidth s1 then Some (Inr (s1, st1))
                        else checkCursor_loop opts getMaxWidth
                               (s1\<lparr>leftVisibleColIndex := leftVisibleColIndex s1 + 1\<rparr>) st1)))))"

declare checkCursor_loop.simps [code]

definition checkCursor ::
  "options \<Rightarrow> (column \<Rightarrow> 'r list \<Rightarrow> int) \<Rightarrow> 'r sheet \<Rightarrow> store
     \<Rightarrow> (py_error + 'r sheet \<times> store) option" where
  "checkCursor opts getMaxWidth s st =
     (let s1 = checkCursor_rows s st;
          x = cursorVisibleColIndex s1 - leftVisibleColIndex s1
      in if x \<le> 0 then Some (Inr (s1\<lparr>leftVisibleColIndex := cursorVisibleColIndex s1\<rparr>, st))
         else checkCursor_loop opts getMaxWidth s1 st)"


section \<open>Rows and columns of a sheet: \<^verbatim>\<open>addRow\<close>, \<^verbatim>\<open>addColumn\<close>, \<^verbatim>\<open>setKeys\<close>, \<^verbatim>\<open>recalc\<close>\<close>

text \<open>
  \<^verbatim>\<open>xs.insert(i, x)\<close>: a negative index counts from the end, and the index is clamped
  to the list.
\<close>

definition py_insert :: "'a list \<Rightarrow> int \<Rightarrow> 'a \<Rightarrow> 'a list" where
  "py_insert xs i x =
     (let n = int (length xs);
          j = (if i < 0 then max (i + n) 0 else min i n)
      in take (nat j) xs @ [x] @ drop (nat j) xs)"

text \<open>
  \<^verbatim>\<open>Sheet.addRow\<close>.  A tuple has neither \<^verbatim>\<open>append\<close> nor \<^verbatim>\<open>insert\<close>, so
  on a sheet that was never reloaded the call raises \<^verbatim>\<open>AttributeError\<close>.
\<close>

definition addRow :: "'r \<Rightarrow> int option \<Rightarrow> 'r sheet \<Rightarrow> py_error + ('r \<times> 'r sheet)" where
  "addRow row index s =
     (case rows s of
        PyTuple xs \<Rightarrow> Inl AttributeError
      | PyList xs \<Rightarrow>
          (case index of
             None \<Rightarrow> Inr (row, s\<lparr>rows := PyList (xs @ [row])\<rparr>)
           | Some i \<Rightarrow> Inr (row, s\<lparr>rows := PyList (py_insert xs i row)\<rparr>)))"

text \<open>
  A new column object: the next free address receives the fields.  This is what a
  constructor call and \<^verbatim>\<open>copy(c)\<close> do to the store.
\<close>

definition new_column :: "column \<Rightarrow> store \<Rightarrow> addr \<times> store" where
  "new_column c st =
     (next_addr st, st\<lparr>col_at := (col_at st)(next_addr st := c), next_addr := Suc (next_addr st)\<rparr>)"

text \<open>
  \<^verbatim>\<open>Sheet.addColumn\<close>, for a column object (an object of a class without
  \<^verbatim>\<open>__bool__\<close> or \<^verbatim>\<open>__len__\<close> is true, so the test \<^verbatim>\<open>if col:\<close> passes).
\<close>

definition addColumn :: "addr \<Rightarrow> int option \<Rightarrow> 'r sheet \<Rightarrow> store \<Rightarrow> addr \<times> 'r sheet \<times> store" where
  "addColumn col index s st =
     (let index1 = (case index of None \<Rightarrow> int (length (columns s)) | Some i \<Rightarrow> i);
          st1 = st\<lparr>col_at := (col_at st)(col := (col_at st col)\<lparr>col_sheet := Some (sid s)\<rparr>)\<rparr>
      in (col, s\<lparr>columns := py_insert (columns s) index1 col\<rparr>, st1))"

text \<open>\<^verbatim>\<open>for col in cols: col.keycol = True\<close>\<close>

definition setKeys :: "addr list \<Rightarrow> store \<Rightarrow> store" where
  "setKeys cols st =
     fold (\<lambda>c st. st\<lparr>col_at := (col_at st)(c := (col_at st c)\<lparr>keycol := True\<rparr>)\<rparr>) cols st"

text \<open>
  \<^verbatim>\<open>Sheet.recalc\<close>: \<^verbatim>\<open>for c in self.columns: c.recalc(self)\<close>.  \<^verbatim>\<open>Column.recalc\<close> is not
  under src/; by the docstring of \<^verbatim>\<open>Sheet.recalc\<close> it clears the column's caches and
  sets \<^verbatim>\<open>col.sheet\<close> to the sheet.
\<close>

definition recalc :: "'r sheet \<Rightarrow> store \<Rightarrow> store" where
  "recalc s st =
     fold (\<lambda>c st. st\<lparr>col_at := (col_at st)(c := (col_at st c)\<lparr>col_sheet := Some (sid s)\<rparr>)\<rparr>)
       (columns s) st"


section \<open>Copying a sheet: \<^verbatim>\<open>Sheet.__copy__\<close>\<close>

text \<open>
  \<^verbatim>\<open>[copy(c) for c in cols]\<close>.  \<open>copy_col\<close> is \<^verbatim>\<open>Column.__copy__\<close> (not under src/):
  it gives the fields of the new object from those of the old one.
\<close>

fun copy_columns :: "(column \<Rightarrow> column) \<Rightarrow> addr list \<Rightarrow> store \<Rightarrow> addr list \<times> store" where
  "copy_columns copy_col [] st = ([], st)"
| "copy_columns copy_col (c # cs) st =
     (case new_column (copy_col (col_at st c)) st of (c', st1) \<Rightarrow>
        (case copy_columns copy_col cs st1 of (cs', st2) \<Rightarrow> (c' # cs', st2)))"

text \<open>
  \<open>base_copy\<close> is \<^verbatim>\<open>BaseSheet.__copy__\<close> (not under src/), the attributes of the
  object that \<^verbatim>\<open>super().__copy__()\<close> returns.  \<^verbatim>\<open>self.keyCols\<close> is memoised: both of
  its uses give the list computed at the first.
\<close>

definition Sheet_copy ::
  "('r sheet \<Rightarrow> 'r sheet) \<Rightarrow> (column \<Rightarrow> column) \<Rightarrow> 'r sheet \<Rightarrow> store \<Rightarrow> 'r sheet \<times> store" where
  "Sheet_copy base_copy copy_col s st =
     (let ret = base_copy s;
          ret1 = ret\<lparr>rows := PyList []\<rparr>;
          kcols = keyCols s st
      in case copy_columns copy_col kcols st of (ks, st1) \<Rightarrow>
         (let ret2 = ret1\<lparr>columns := ks\<rparr>;
              st2 = setKeys (columns ret2) st1
          in case copy_columns copy_col (filter (\<lambda>c. c \<notin> set kcols) (columns s)) st2 of (ns, st3) \<Rightarrow>
             (let ret3 = ret2\<lparr>columns := columns ret2 @ ns\<rparr>;
                  st4 = recalc ret3 st3
              in (ret3\<lparr>topRowIndex := 0, cursorRowIndex := 0\<rparr>, st4))))"


section \<open>Rows of a JSON sheet: \<^verbatim>\<open>JsonSheet.addRow\<close>\<close>

text \<open>
  A row of a \<^verbatim>\<open>JsonSheet\<close> is what \<^verbatim>\<open>json.load\<close> returns, or the wrapper of the
  exception that a line of a JSON-lines file raised.  A dictionary is listed in its
  iteration order.
\<close>

datatype json =
    JNull
  | JBool bool
  | JNum int
  | JStr string
  | JList "json list"
  | JDict "(string \<times> json) list"
  | JError string

text \<open>
  A \<^verbatim>\<open>JsonSheet\<close> is a sheet with the attribute \<^verbatim>\<open>colnames\<close>, which only
  \<^verbatim>\<open>iterload\<close> sets: before the first load the attribute does not exist.
\<close>

record json_sheet =
  js_sheet :: "json sheet"
  colnames :: "(string \<rightharpoonup> addr) option"

text \<open>
  The loop \<^verbatim>\<open>for k in row\<close> over the items still to visit.  \<open>mk k v\<close> gives the fields
  of \<^verbatim>\<open>ColumnItem(k, type=deduceType(v))\<close> (neither is under src/).
\<close>

fun addRow_keys ::
  "(string \<Rightarrow> json \<Rightarrow> column) \<Rightarrow> (string \<times> json) list \<Rightarrow> (string \<rightharpoonup> addr) \<Rightarrow> json sheet \<Rightarrow> store
     \<Rightarrow> (string \<rightharpoonup> addr) \<times> json sheet \<times> store" where
  "addRow_keys mk [] m s st = (m, s, st)"
| "addRow_keys mk ((k, v) # kvs) m s st =
     (if m k = None then
        (case new_column (mk k v) st of (c, st1) \<Rightarrow>
          (case addColumn c None s st1 of (_, s1, st2) \<Rightarrow>
             addRow_keys mk kvs (m(k \<mapsto> c)) s1 st2))
      else addRow_keys mk kvs m s st)"

text \<open>
  The result is the returned value (\<open>None\<close> for Python's \<^verbatim>\<open>None\<close>) with the sheet and
  the store after the call.
\<close>

definition JsonSheet_addRow ::
  "(string \<Rightarrow> json \<Rightarrow> column) \<Rightarrow> json \<Rightarrow> int option \<Rightarrow> json_sheet \<Rightarrow> store
     \<Rightarrow> py_error + (json option \<times> json_sheet \<times> store)" where
  "JsonSheet_addRow mk row index js st =
     (case addRow row index (js_sheet js) of
        Inl e \<Rightarrow> Inl e
      | Inr (_, s1) \<Rightarrow>
          (case row of
             JDict kvs \<Rightarrow>
               (case colnames js of
                  None \<Rightarrow> (if kvs = [] then Inr (Some row, js\<lparr>js_sheet := s1\<rparr>, st)
                           else Inl AttributeError)
                | Some m \<Rightarrow>
                    (case addRow_keys mk kvs m s1 st of (m', s2, st') \<Rightarrow>
                       Inr (Some row, js\<lparr>js_sheet := s2, colnames := Some m'\<rparr>, st')))
           | _ \<Rightarrow> Inr (None, js\<lparr>js_sheet := s1\<rparr>, st)))"


section \<open>Colorizers: \<^verbatim>\<open>Sheet.getColorizers\<close> and \<^verbatim>\<open>Sheet.colorize\<close>\<close>

text \<open>
  The values a colorizer's predicate returns and \<^verbatim>\<open>colorize\<close> stacks: \<^verbatim>\<open>None\<close>, a
  boolean, a number or the name of a colour option.  \<open>truthy\<close> is Python's truth
  test \<^verbatim>\<open>if r:\<close>.
\<close>

datatype pyval = PNone | PBool bool | PInt int | PStr string

fun truthy :: "pyval \<Rightarrow> bool" where
  "truthy PNone = False"
| "truthy (PBool b) = b"
| "truthy (PInt i) = (i \<noteq> 0)"
| "truthy (PStr s) = (s \<noteq> [])"

text \<open>
  \<^verbatim>\<open>RowColorizer\<close>, \<^verbatim>\<open>CellColorizer\<close> and \<^verbatim>\<open>ColumnColorizer\<close> are named tuples
  \<^verbatim>\<open>(precedence, coloropt, func)\<close>, equal when their fields are.  A function object is
  equal only to itself: \<open>func\<close> is its identity.
\<close>

record colorizer =
  precedence :: int
  coloropt :: "string option"
  func :: nat

text \<open>
  The class attribute \<^verbatim>\<open>Sheet.colorizers\<close>, in the order of its declaration; the
  predicates are numbered as they appear.
\<close>

definition Sheet_colorizers :: "colorizer list" where
  "Sheet_colorizers =
     [\<lparr>precedence = 2, coloropt = Some ''color_default_hdr'', func = 0\<rparr>,
      \<lparr>precedence = 2, coloropt = Some ''color_current_col'', func = 1\<rparr>,
      \<lparr>precedence = 1, coloropt = Some ''color_key_col'', func = 2\<rparr>,
      \<lparr>precedence = 0, coloropt = Some ''color_default'', func = 3\<rparr>,
      \<lparr>precedence = 2, coloropt = Some ''color_selected_row'', func = 4\<rparr>,
      \<lparr>precedence = 1, coloropt = Some ''color_error'', func = 5\<rparr>]"

text \<open>
  \<^verbatim>\<open>getColorizers\<close> adds the colorizers of \<^verbatim>\<open>self\<close> and of every ancestor class
  (\<open>decls\<close>, one list for each, in the order of the loop) to a \<^verbatim>\<open>set\<close> and sorts
  the set.  A Python set iterates in the order of its hash table, which the hashes of
  the elements decide (for a colorizer, the address of its function object among them),
  not the order of insertion: \<open>set_iter\<close> gives the iteration order of the set built
  by the given sequence of \<^verbatim>\<open>add\<close> calls.  \<^verbatim>\<open>sorted(..., key, reverse=True)\<close> is stable.
  The \<^verbatim>\<open>lru_cache\<close> is modelled at its freshly computed value.
\<close>

definition getColorizers :: "(colorizer list \<Rightarrow> colorizer list) \<Rightarrow> colorizer list list \<Rightarrow> colorizer list" where
  "getColorizers set_iter decls = sort_key (\<lambda>x. - precedence x) (set_iter (concat decls))"

text \<open>
  The loop of \<^verbatim>\<open>colorize\<close> over the colorizers still to apply.  \<open>call f ctx\<close> is the
  outcome of the predicate \<open>f\<close> on \<open>ctx\<close>, the arguments
  \<^verbatim>\<open>(self, col, row, value)\<close>: a value, or the exception it raises.  The state is
  \<^verbatim>\<open>colorstack\<close> with the exceptions handed to \<^verbatim>\<open>exceptionCaught\<close>.
\<close>

fun colorize_loop ::
  "(nat \<Rightarrow> 'c \<Rightarrow> py_error + pyval) \<Rightarrow> 'c \<Rightarrow> colorizer list \<Rightarrow> pyval list \<times> py_error list
     \<Rightarrow> pyval list \<times> py_error list" where
  "colorize_loop call ctx [] acc = acc"
| "colorize_loop call ctx (c # cs) (colorstack, caught) =
     (case call (func c) ctx of
        Inl e \<Rightarrow> colorize_loop call ctx cs (colorstack, caught @ [e])
      | Inr r \<Rightarrow>
          if truthy r
          then colorize_loop call ctx cs
                 (colorstack @ [case coloropt c of
                                  None \<Rightarrow> r
                                | Some opt \<Rightarrow> if opt \<noteq> [] then PStr opt else r], caught)
          else colorize_loop call ctx cs (colorstack, caught))"

text \<open>
  \<open>resolve_colors\<close> is \<^verbatim>\<open>colors.resolve_colors\<close> (not under src/).  The result is the
  returned attribute with the exceptions caught on the way.
\<close>

definition colorize ::
  "(nat \<Rightarrow> 'c \<Rightarrow> py_error + pyval) \<Rightarrow> (pyval list \<Rightarrow> 'a) \<Rightarrow> (colorizer list \<Rightarrow> colorizer list)
     \<Rightarrow> colorizer list list \<Rightarrow> 'c \<Rightarrow> 'a \<times> py_error list" where
  "colorize call resolve_colors set_iter decls ctx =
     (case colorize_loop call ctx (getColorizers set_iter decls) ([], []) of
        (colorstack, caught) \<Rightarrow> (resolve_colors colorstack, caught))"

text \<open>
  What one colorizer contributes to the stack: nothing when its predicate raises or
  returns a false value, else its colour option, or the returned value when it has none.
\<close>

definition applied :: "(nat \<Rightarrow> 'c \<Rightarrow> py_error + pyval) \<Rightarrow> 'c \<Rightarrow> colorizer \<Rightarrow> pyval option" where
  "applied call ctx c =
     (case call (func c) ctx of
        Inl e \<Rightarrow> None
      | Inr r \<Rightarrow>
          if truthy r
          then Some (case coloropt c of None \<Rightarrow> r | Some opt \<Rightarrow> if opt \<noteq> [] then PStr opt else r)
          else None)"


section \<open>The command log: entries and \<^verbatim>\<open>isLoggableCommand\<close>\<close>

text \<open>
  An item of \<^verbatim>\<open>undofuncs\<close>: an undo callback (by identity), or a character, which is
  what \<^verbatim>\<open>+=\<close> of a string adds to a list.
\<close>

datatype undo_item = UndoFunc nat | UndoChr char

text \<open>
  \<^verbatim>\<open>CommandLogRow\<close>, the named list
  \<^verbatim>\<open>sheet col row longname input keystrokes comment undofuncs\<close>.  A field that holds
  \<^verbatim>\<open>None\<close> is modelled by the empty string: the modelled code only tests such a
  field for truth.
\<close>

record entry =
  sheet :: string
  col :: string
  row :: string
  longname :: string
  input :: string
  keystrokes :: string
  comment :: string
  undofuncs :: "undo_item list"

text \<open>The prefixes which should not be logged (\<^verbatim>\<open>nonLogged\<close>, lines 14 to 18).\<close>

definition nonLogged :: "string list" where
  "nonLogged =
     [''forget'', ''exec-longname'', ''undo'', ''redo'', ''quit'',
      ''show'', ''error'', ''errors'', ''statuses'', ''options'', ''threads'', ''cmdlog'', ''jump'',
      ''replay'', ''stop'', ''pause'', ''cancel'', ''advance'', ''save-cmdlog'',
      ''go-'', ''search'', ''scroll'', ''prev'', ''next'', ''page'', ''start'', ''end'', ''zoom'',
      ''resize'', ''visibility'',
      ''suspend'', ''redraw'', ''no-op'', ''help'', ''syscopy'', ''syspaste'', ''sysopen'',
      ''profile'', ''toggle'']"

text \<open>\<^verbatim>\<open>s.startswith(p)\<close>\<close>

definition startswith :: "string \<Rightarrow> string \<Rightarrow> bool" where
  "startswith s p = (take (length p) s = p)"

fun isLoggable_for :: "string list \<Rightarrow> string \<Rightarrow> bool" where
  "isLoggable_for [] ln = True"
| "isLoggable_for (n # ns) ln = (if startswith ln n then False else isLoggable_for ns ln)"

definition isLoggableCommand :: "string \<Rightarrow> bool" where
  "isLoggableCommand ln = isLoggable_for nonLogged ln"


section \<open>The session: sheets, command logs and the replay state\<close>

text \<open>
  What the command log code reads and writes.  Sheets are objects, named by their
  identity: \<open>w_sheets\<close> holds the data sheets, \<open>w_logs\<close> the \<^verbatim>\<open>CommandLog\<close> sheets
  (sheets whose rows are entries), \<open>cmdlog_sheet\<close> the lazy property
  \<^verbatim>\<open>sheet.cmdlog_sheet\<close> (the log of each sheet, created with \<^verbatim>\<open>rows=[]\<close>).
  \<open>activeCommand\<close> is \<^verbatim>\<open>vd.activeCommand\<close>; \<open>currentReplay\<close>,
  \<open>currentReplayRow\<close>, \<open>paused\<close> and \<open>semaphore\<close> are the class attributes of
  \<^verbatim>\<open>CommandLog\<close>; \<open>sessionlog\<close> holds the rows appended to the history file;
  \<open>statuses\<close> the messages of \<^verbatim>\<open>status\<close>, \<^verbatim>\<open>warning\<close> and \<^verbatim>\<open>exceptionCaught\<close>;
  \<open>ext\<close> is the rest of the program's state.
\<close>

record ('r, 'x) world =
  w_opts :: options
  w_sheets :: "nat \<Rightarrow> 'r sheet"
  w_logs :: "nat \<Rightarrow> entry sheet"
  cmdlog_sheet :: "nat \<Rightarrow> nat"
  w_store :: store
  activeCommand :: "entry option"
  currentReplay :: "nat option"
  currentReplayRow :: "entry option"
  paused :: bool
  semaphore :: nat
  sessionlog :: "entry list"
  statuses :: "string list"
  ext :: 'x

definition status :: "string \<Rightarrow> ('r, 'x) world \<Rightarrow> ('r, 'x) world" where
  "status msg w = w\<lparr>statuses := statuses w @ [msg]\<rparr>"

text \<open>
  \<^verbatim>\<open>exceptionCaught(e)\<close> (not under src/) reports the exception; the spec: all caught
  errors are surfaced as status messages.
\<close>

definition exceptionCaught :: "py_error \<Rightarrow> ('r, 'x) world \<Rightarrow> ('r, 'x) world" where
  "exceptionCaught e w = status ''exception caught'' w"


section \<open>Recording a command: \<^verbatim>\<open>CommandLog.afterExecSheet\<close>\<close>

text \<open>\<^verbatim>\<open>log.addRow(r)\<close> on the command log with identity \<open>log\<close>.\<close>

definition log_addRow :: "nat \<Rightarrow> entry \<Rightarrow> ('r, 'x) world \<Rightarrow> py_error + ('r, 'x) world" where
  "log_addRow log r w =
     (case addRow r None (w_logs w log) of
        Inl e \<Rightarrow> Inl e
      | Inr (_, s) \<Rightarrow> Inr (w\<lparr>w_logs := (w_logs w)(log := s)\<rparr>))"

text \<open>
  \<^verbatim>\<open>afterExecSheet(self, sheet, escaped, err)\<close>; \<open>self\<close> and \<open>vs\<close> are the identities of
  the command log and of the acting sheet.  \<^verbatim>\<open>vd.activeCommand[-1]\<close> is the field
  \<^verbatim>\<open>undofuncs\<close>, a list: \<^verbatim>\<open>+=\<close> extends it by the characters of the string.  The
  history file is written by \<^verbatim>\<open>append_tsv_row\<close> (not under src/).
\<close>

definition annotate_err :: "string \<Rightarrow> entry \<Rightarrow> entry" where
  "annotate_err err cmd =
     (if err \<noteq> [] then cmd\<lparr>undofuncs := undofuncs cmd @ map UndoChr ('' ['' @ err @ '']'')\<rparr>
      else cmd)"

definition afterExecSheet ::
  "nat \<Rightarrow> nat \<Rightarrow> bool \<Rightarrow> string \<Rightarrow> ('r, 'x) world \<Rightarrow> py_error + ('r, 'x) world" where
  "afterExecSheet self vs escaped err w =
     (case activeCommand w of
        None \<Rightarrow> Inr w
      | Some cmd \<Rightarrow>
          (let cmd1 = annotate_err err cmd;
               w1 = w\<lparr>activeCommand := Some cmd1\<rparr>
           in if \<not> escaped \<and> isLoggableCommand (longname cmd1) \<and> self \<noteq> vs
              then (case log_addRow self cmd1 w1 of
                      Inl e \<Rightarrow> Inl e
                    | Inr w2 \<Rightarrow>
                       (case log_addRow (cmdlog_sheet w2 vs) cmd1 w2 of
                          Inl e \<Rightarrow> Inl e
                        | Inr w3 \<Rightarrow>
                            (let w4 = (if cmdlog_histfile (w_opts w3) \<noteq> []
                                       then w3\<lparr>sessionlog := sessionlog w3 @ [cmd1]\<rparr> else w3)
                             in Inr (w4\<lparr>activeCommand := None\<rparr>))))
              else Inr (w1\<lparr>activeCommand := None\<rparr>)))"


section \<open>Moving to a row or a column: \<^verbatim>\<open>moveToRow\<close>, \<^verbatim>\<open>moveToCol\<close>\<close>

text \<open>
  \<^verbatim>\<open>int(s)\<close> for a string of characters below 256: surrounding white space (the
  characters that \<^verbatim>\<open>int\<close> skips there), a sign, and decimal digits that single
  underscores may separate.  \<open>None\<close> stands for \<^verbatim>\<open>ValueError\<close>.
\<close>

definition int_space :: "char \<Rightarrow> bool" where
  "int_space c = (of_char c \<in> {9, 10, 11, 12, 13, 32, 133, 160 :: nat})"

definition int_strip :: "string \<Rightarrow> string" where
  "int_strip s = rev (dropWhile int_space (rev (dropWhile int_space s)))"

definition is_digit :: "char \<Rightarrow> bool" where
  "is_digit c = (48 \<le> (of_char c :: nat) \<and> (of_char c :: nat) \<le> 57)"

fun digits_ok :: "string \<Rightarrow> bool" where
  "digits_ok [] = False"
| "digits_ok [c] = is_digit c"
| "digits_ok (c # d # cs) =
     (if is_digit c then digits_ok (if d = CHR ''_'' then cs else d # cs) else False)"

definition digits_val :: "string \<Rightarrow> int" where
  "digits_val s = foldl (\<lambda>n c. 10 * n + (int (of_char c) - 48)) 0 (filter is_digit s)"

definition py_int :: "string \<Rightarrow> int option" where
  "py_int s =
     (case int_strip s of
        [] \<Rightarrow> None
      | c # cs \<Rightarrow>
          if c = CHR ''-'' then (if digits_ok cs then Some (- digits_val cs) else None)
          else if c = CHR ''+'' then (if digits_ok cs then Some (digits_val cs) else None)
          else if digits_ok (c # cs) then Some (digits_val (c # cs)) else None)"

text \<open>\<^verbatim>\<open>indexMatch(L, func)\<close>: the smallest index whose item satisfies \<open>func\<close>, or \<^verbatim>\<open>None\<close>.\<close>

fun indexMatch :: "'a list \<Rightarrow> ('a \<Rightarrow> bool) \<Rightarrow> int option" where
  "indexMatch [] f = None"
| "indexMatch (x # xs) f =
     (if f x then Some 0 else (case indexMatch xs f of None \<Rightarrow> None | Some i \<Rightarrow> Some (i + 1)))"

text \<open>\<^verbatim>\<open>sep.join(xs)\<close>\<close>

fun py_join :: "string \<Rightarrow> string list \<Rightarrow> string" where
  "py_join sep [] = []"
| "py_join sep [x] = x"
| "py_join sep (x # y # ys) = x @ sep @ py_join sep (y # ys)"

text \<open>
  \<^verbatim>\<open>keystr(vs.rowkey(r))\<close>.  \<open>typed_str c r\<close> is \<^verbatim>\<open>str(c.getTypedValue(r))\<close>
  (\<^verbatim>\<open>Column.getTypedValue\<close> is not under src/).
\<close>

definition rowkey_str :: "options \<Rightarrow> (column \<Rightarrow> 'r \<Rightarrow> string) \<Rightarrow> 'r sheet \<Rightarrow> store \<Rightarrow> 'r \<Rightarrow> string" where
  "rowkey_str opts typed_str vs st r =
     rowkey_prefix opts @ py_join '','' (map (\<lambda>c. typed_str (col_at st c) r) (keyCols vs st))"

definition getRowIndexFromStr ::
  "options \<Rightarrow> (column \<Rightarrow> 'r \<Rightarrow> string) \<Rightarrow> string \<Rightarrow> 'r sheet \<Rightarrow> store \<Rightarrow> int option" where
  "getRowIndexFromStr opts typed_str rowstr vs st =
     (case indexMatch (items (rows vs)) (\<lambda>r. rowkey_str opts typed_str vs st r = rowstr) of
        Some i \<Rightarrow> Some i
      | None \<Rightarrow> py_int rowstr)"

text \<open>
  \<^verbatim>\<open>moveToRow(vs, rowstr)\<close>.  The function has no parameter or global named
  \<^verbatim>\<open>self\<close>: with \<^verbatim>\<open>replay_movement\<close> set, the first pass of the loop moves the cursor
  by one and then evaluating \<^verbatim>\<open>self.delay(0.5)\<close> raises \<^verbatim>\<open>NameError\<close>.  The result
  is the sheet as the call leaves it, with the returned value or the exception.
\<close>

definition moveToRow ::
  "options \<Rightarrow> (column \<Rightarrow> 'r \<Rightarrow> string) \<Rightarrow> string \<Rightarrow> 'r sheet \<Rightarrow> store \<Rightarrow> 'r sheet \<times> (py_error + bool)" where
  "moveToRow opts typed_str rowstr vs st =
     (case getRowIndexFromStr opts typed_str rowstr vs st of
        None \<Rightarrow> (vs, Inr False)
      | Some rowidx \<Rightarrow>
          if replay_movement opts then
            (if cursorRowIndex vs \<noteq> rowidx
             then (vs\<lparr>cursorRowIndex := cursorRowIndex vs
                        + (if rowidx - cursorRowIndex vs > 0 then 1 else - 1)\<rparr>,
                   Inl (NameError ''self''))
             else (vs, Inr True))
          else (vs\<lparr>cursorRowIndex := rowidx\<rparr>, Inr True))"

definition moveToCol ::
  "options \<Rightarrow> string \<Rightarrow> 'r sheet \<Rightarrow> store \<Rightarrow> 'r sheet \<times> (py_error + bool)" where
  "moveToCol opts colstr vs st =
     (case (case py_int colstr of
              Some i \<Rightarrow> Some i
            | None \<Rightarrow> indexMatch (visibleCols vs st) (\<lambda>c. colstr = name (col_at st c))) of
        None \<Rightarrow> (vs, Inr False)
      | Some vcolidx \<Rightarrow>
          if replay_movement opts then
            (if cursorVisibleColIndex vs \<noteq> vcolidx
             then (vs\<lparr>cursorVisibleColIndex := cursorVisibleColIndex vs
                        + (if vcolidx - cursorVisibleColIndex vs > 0 then 1 else - 1)\<rparr>,
                   Inl (NameError ''self''))
             else (vs, Inr True))
          else (vs\<lparr>cursorVisibleColIndex := vcolidx\<rparr>, Inr True))"


section \<open>Replay: \<^verbatim>\<open>cancel\<close>, \<^verbatim>\<open>delay\<close>, \<^verbatim>\<open>moveToReplayContext\<close>, \<^verbatim>\<open>replayOne\<close>, \<^verbatim>\<open>replay_sync\<close>\<close>

text \<open>
  What the replay code calls and is not under src/: \<^verbatim>\<open>vd.getSheet\<close>, the truth value
  of a sheet object (\<^verbatim>\<open>BaseSheet\<close> may define \<^verbatim>\<open>__bool__\<close>; \<^verbatim>\<open>Sheet\<close> defines
  \<^verbatim>\<open>__len__\<close>), \<^verbatim>\<open>vd.push\<close>, \<^verbatim>\<open>options.set\<close> for a \<^verbatim>\<open>set-option\<close> entry,
  \<^verbatim>\<open>vs.exec_command(vs.getCommand(...))\<close> (the command execution contract: it reports
  whether the command was escaped, or raises),
  \<^verbatim>\<open>vd.sheets[0].ensureLoaded(); vd.sync()\<close>, and \<^verbatim>\<open>str(c.getTypedValue(r))\<close>.  Each
  may change the whole session.  \<open>ui\<close> is what the interface thread does to the
  session while the replay thread waits on the semaphore.
\<close>

record ('r, 'x) api =
  getSheet :: "('r, 'x) world \<Rightarrow> string \<Rightarrow> nat option"
  sheet_true :: "('r, 'x) world \<Rightarrow> nat \<Rightarrow> bool"
  push :: "nat \<Rightarrow> ('r, 'x) world \<Rightarrow> ('r, 'x) world"
  set_option :: "entry \<Rightarrow> ('r, 'x) world \<Rightarrow> ('r, 'x) world \<times> py_error option"
  exec_command :: "nat \<Rightarrow> entry \<Rightarrow> ('r, 'x) world \<Rightarrow> ('r, 'x) world \<times> (py_error + bool)"
  sync :: "('r, 'x) world \<Rightarrow> ('r, 'x) world \<times> py_error option"
  ui :: "('r, 'x) world \<Rightarrow> ('r, 'x) world"
  typed_str :: "column \<Rightarrow> 'r \<Rightarrow> string"

text \<open>\<^verbatim>\<open>advance\<close> releases the semaphore; \<^verbatim>\<open>cancel\<close> clears the replay and advances.\<close>

definition advance :: "('r, 'x) world \<Rightarrow> ('r, 'x) world" where
  "advance w = w\<lparr>semaphore := semaphore w + 1\<rparr>"

definition cancel :: "('r, 'x) world \<Rightarrow> ('r, 'x) world" where
  "cancel w = advance (w\<lparr>currentReplayRow := None, currentReplay := None\<rparr>)"

text \<open>
  \<^verbatim>\<open>semaphore.acquire(timeout=None)\<close>: takes a release if there is one, else blocks
  while the interface thread runs, for ever if no release comes (the value \<open>None\<close>).
\<close>

partial_function (option) acquire_blocking ::
  "(('r, 'x) world \<Rightarrow> ('r, 'x) world) \<Rightarrow> ('r, 'x) world \<Rightarrow> ('r, 'x) world option" where
  "acquire_blocking other w =
     (if semaphore w > 0 then Some (w\<lparr>semaphore := semaphore w - 1\<rparr>)
      else acquire_blocking other (other w))"

declare acquire_blocking.simps [code]

text \<open>
  \<^verbatim>\<open>delay\<close>: the interface thread has run since the replay thread last looked; then a
  timed \<^verbatim>\<open>acquire\<close> when not paused (it takes a release, or times out while the
  interface thread runs once more), an untimed one when paused.  The result is
  \<^verbatim>\<open>acquired or not self.paused\<close>.
\<close>

definition delay :: "('r, 'x) api \<Rightarrow> ('r, 'x) world \<Rightarrow> (bool \<times> ('r, 'x) world) option" where
  "delay api w =
     (let w1 = ui api w
      in if paused w1
         then (case acquire_blocking (ui api) w1 of
                 None \<Rightarrow> None
               | Some w2 \<Rightarrow> Some (True, w2))
         else if semaphore w1 > 0 then Some (True, w1\<lparr>semaphore := semaphore w1 - 1\<rparr>)
         else (let w2 = ui api w1
               in if semaphore w2 > 0 then Some (True, w2\<lparr>semaphore := semaphore w2 - 1\<rparr>)
                  else Some (\<not> paused w2, w2)))"

text \<open>\<^verbatim>\<open>while not self.delay(): pass\<close>\<close>

partial_function (option) wait_delay ::
  "('r, 'x) api \<Rightarrow> ('r, 'x) world \<Rightarrow> ('r, 'x) world option" where
  "wait_delay api w =
     (case delay api w of
        None \<Rightarrow> None
      | Some (ok, w1) \<Rightarrow> if ok then Some w1 else wait_delay api w1)"

declare wait_delay.simps [code]

text \<open>
  \<^verbatim>\<open>vs.moveToRow(r.row) or error(...)\<close> and \<^verbatim>\<open>vs.moveToCol(r.col) or error(...)\<close> on
  the sheet \<open>h\<close>: the session after the call, and the exception if one is raised.
\<close>

definition ctx_moveToRow ::
  "('r, 'x) api \<Rightarrow> nat \<Rightarrow> entry \<Rightarrow> ('r, 'x) world \<Rightarrow> ('r, 'x) world \<times> py_error option" where
  "ctx_moveToRow api h r w =
     (case moveToRow (w_opts w) (typed_str api) (row r) (w_sheets w h) (w_store w) of
        (s, res) \<Rightarrow>
          (w\<lparr>w_sheets := (w_sheets w)(h := s)\<rparr>,
           case res of
             Inl e \<Rightarrow> Some e
           | Inr b \<Rightarrow> if b then None else Some (VdError (''no \"'' @ row r @ ''\" row''))))"

definition ctx_moveToCol ::
  "nat \<Rightarrow> entry \<Rightarrow> ('r, 'x) world \<Rightarrow> ('r, 'x) world \<times> py_error option" where
  "ctx_moveToCol h r w =
     (case moveToCol (w_opts w) (col r) (w_sheets w h) (w_store w) of
        (s, res) \<Rightarrow>
          (w\<lparr>w_sheets := (w_sheets w)(h := s)\<rparr>,
           case res of
             Inl e \<Rightarrow> Some e
           | Inr b \<Rightarrow> if b then None else Some (VdError (''no \"'' @ col r @ ''\" column''))))"

text \<open>
  \<^verbatim>\<open>moveToReplayContext\<close>: the sheet of the entry (\<open>None\<close> when the entry names
  none), or the exception raised.
\<close>

definition moveToReplayContext ::
  "('r, 'x) api \<Rightarrow> entry \<Rightarrow> ('r, 'x) world \<Rightarrow> ('r, 'x) world \<times> (py_error + nat option)" where
  "moveToReplayContext api r w =
     (if sheet r \<noteq> [] then
        (case getSheet api w (sheet r) of
           None \<Rightarrow> (w, Inl (VdError (''no sheet named '' @ sheet r)))
         | Some h \<Rightarrow>
             if \<not> sheet_true api w h then (w, Inl (VdError (''no sheet named '' @ sheet r)))
             else
               (case (if row r \<noteq> [] then ctx_moveToRow api h r w else (w, None)) of
                  (w1, Some e) \<Rightarrow> (w1, Inl e)
                | (w1, None) \<Rightarrow>
                    (case (if col r \<noteq> [] then ctx_moveToCol h r w1 else (w1, None)) of
                       (w2, Some e) \<Rightarrow> (w2, Inl e)
                     | (w2, None) \<Rightarrow> (w2, Inr (Some h)))))
      else (w, Inr None))"

text \<open>
  The end of \<^verbatim>\<open>replayOne\<close>: the current row is cleared, an escape is reported by
  \<^verbatim>\<open>warning\<close>, and \<open>escaped\<close> is returned.
\<close>

definition replayOne_end :: "entry \<Rightarrow> bool \<Rightarrow> ('r, 'x) world \<Rightarrow> ('r, 'x) world \<times> (py_error + bool)" where
  "replayOne_end r escaped w =
     (let w1 = w\<lparr>currentReplayRow := None\<rparr>
      in (if escaped
          then status (''replay aborted during '' @ (if longname r \<noteq> [] then longname r else keystrokes r)) w1
          else w1,
          Inr escaped))"

text \<open>
  \<^verbatim>\<open>replayOne(self, r)\<close>: the session after the call, with the returned \<open>escaped\<close> or
  the exception that leaves the call.
\<close>

definition replayOne ::
  "('r, 'x) api \<Rightarrow> nat \<Rightarrow> entry \<Rightarrow> ('r, 'x) world \<Rightarrow> ('r, 'x) world \<times> (py_error + bool)" where
  "replayOne api self r w =
     (let w1 = w\<lparr>currentReplayRow := Some r\<rparr>
      in if longname r = ''set-option'' then
           (case set_option api r w1 of
              (w2, None) \<Rightarrow> replayOne_end r False w2
            | (w2, Some e) \<Rightarrow> replayOne_end r True (exceptionCaught e w2))
         else
           (case moveToReplayContext api r w1 of
              (w2, Inl e) \<Rightarrow> (w2, Inl e)
            | (w2, Inr vs) \<Rightarrow>
                (let (w3, vs1) = (case vs of
                                    None \<Rightarrow> (w2, self)
                                  | Some h \<Rightarrow> if sheet_true api w2 h then (push api h w2, h)
                                              else (w2, self));
                     w4 = (if comment r \<noteq> [] then status (comment r) w3 else w3)
                 in case exec_command api vs1 r w4 of
                      (w5, Inl e) \<Rightarrow> (w5, Inl e)
                    | (w5, Inr escaped) \<Rightarrow> replayOne_end r escaped w5)))"

text \<open>
  \<^verbatim>\<open>self.cursorRow\<close> of the replaying log: \<^verbatim>\<open>None\<close> on a log without rows, else
  \<^verbatim>\<open>self.rows[self.cursorRowIndex]\<close>, where a negative index counts from the end and an
  index outside the list raises \<^verbatim>\<open>IndexError\<close>.
\<close>

definition cursorRow :: "'r sheet \<Rightarrow> py_error + 'r option" where
  "cursorRow s =
     (let n = nRows s; i = cursorRowIndex s
      in if n > 0
         then (if 0 \<le> i \<and> i < n then Inr (Some (items (rows s) ! nat i))
               else if - n \<le> i \<and> i < 0 then Inr (Some (items (rows s) ! nat (i + n)))
               else Inl IndexError)
         else Inr None)"

text \<open>How a call of \<^verbatim>\<open>replay_sync\<close> ends: \<^verbatim>\<open>return\<close>, \<^verbatim>\<open>return True\<close>, or an exception.\<close>

datatype replay_result = ReturnedNone | ReturnedTrue | Raised py_error

text \<open>
  The \<^verbatim>\<open>while\<close> loop of \<^verbatim>\<open>replay_sync\<close>, from its test.  \<open>trace\<close> lists the entries
  handed to \<^verbatim>\<open>replayOne\<close> so far; it is an observation of the run, which no part of
  the program reads.  A loop that never ends, or a wait for a release that never comes,
  has the value \<open>None\<close>.
\<close>

partial_function (option) replay_loop ::
  "('r, 'x) api \<Rightarrow> nat \<Rightarrow> entry list \<Rightarrow> ('r, 'x) world
     \<Rightarrow> (('r, 'x) world \<times> entry list \<times> replay_result) option" where
  "replay_loop api self trace w =
     (if cursorRowIndex (w_logs w self) < int (length (items (rows (w_logs w self)))) then
        (if currentReplay w = None then Some (status ''replay canceled'' w, trace, ReturnedNone)
         else
           (let w1 = w\<lparr>statuses := []\<rparr>
            in case cursorRow (w_logs w1 self) of
                 Inl e \<Rightarrow>
                   Some (status ''replay canceled'' (exceptionCaught e (cancel w1)), trace, ReturnedTrue)
               | Inr None \<Rightarrow>
                   Some (status ''replay canceled''
                           (exceptionCaught AttributeError (cancel (w1\<lparr>currentReplayRow := None\<rparr>))),
                         trace, ReturnedTrue)
               | Inr (Some r) \<Rightarrow>
                   (case replayOne api self r w1 of
                      (w2, Inl e) \<Rightarrow>
                        Some (status ''replay canceled'' (exceptionCaught e (cancel w2)),
                              trace @ [r], ReturnedTrue)
                    | (w2, Inr escaped) \<Rightarrow>
                        if escaped then Some (cancel w2, trace @ [r], ReturnedTrue)
                        else
                          (let w3 = w2\<lparr>w_logs := (w_logs w2)
                                      (self := (w_logs w2 self)
                                         \<lparr>cursorRowIndex := cursorRowIndex (w_logs w2 self) + 1\<rparr>)\<rparr>
                           in case sync api w3 of
                                (w4, Some e) \<Rightarrow> Some (w4, trace @ [r], Raised e)
                              | (w4, None) \<Rightarrow>
                                  (case wait_delay api w4 of
                                     None \<Rightarrow> None
                                   | Some w5 \<Rightarrow> replay_loop api self (trace @ [r]) w5)))))
      else Some ((status ''replay complete'' w)\<lparr>currentReplay := None\<rparr>, trace, ReturnedNone))"

declare replay_loop.simps [code]

definition replay_sync ::
  "('r, 'x) api \<Rightarrow> nat \<Rightarrow> ('r, 'x) world \<Rightarrow> (('r, 'x) world \<times> entry list \<times> replay_result) option" where
  "replay_sync api self w =
     replay_loop api self []
       (w\<lparr>w_logs := (w_logs w)(self := (w_logs w self)\<lparr>cursorRowIndex := 0\<rparr>),
          currentReplay := Some self\<rparr>)"


section \<open>Wrapping a cell: \<^verbatim>\<open>splitcell\<close>\<close>

text \<open>
  \<^verbatim>\<open>splitcell\<close> calls \<^verbatim>\<open>str.splitlines\<close> and \<^verbatim>\<open>textwrap.wrap\<close> of the Python
  library.  Both are modelled for strings of characters below 256, with the character
  classes that Python has there: \<^verbatim>\<open>str.isspace\<close>, the line boundaries of
  \<^verbatim>\<open>splitlines\<close>, and the classes \<^verbatim>\<open>\w\<close> and \<^verbatim>\<open>\d\<close> of \<^verbatim>\<open>re\<close>.
\<close>

definition py_isspace :: "char \<Rightarrow> bool" where
  "py_isspace c =
     (let n = (of_char c :: nat) in (9 \<le> n \<and> n \<le> 13) \<or> (28 \<le> n \<and> n \<le> 32) \<or> n = 133 \<or> n = 160)"































section \<open>Example data\<close>

text \<open>
  Concrete options, columns and sheets on which the theorems below are instantiated:
  the separator and the scroll markers are one character wide, and
  \<^verbatim>\<open>Column.getMaxWidth\<close> answers 3 for every column.
\<close>

definition ex_opts :: options where
  "ex_opts = \<lparr>disp_more_left = ''<'', disp_more_right = ''>'', disp_column_sep = ''|'',
     default_width = 20, textwrap_cells = True, replay_movement = False,
     rowkey_prefix = ''#'', cmdlog_histfile = []\<rparr>"

definition ex_getMaxWidth :: "column \<Rightarrow> nat list \<Rightarrow> int" where
  "ex_getMaxWidth c rs = 3"

definition ex_col :: "string \<Rightarrow> bool \<Rightarrow> bool \<Rightarrow> column" where
  "ex_col n k h = \<lparr>name = n, ctype = ''str'', width = Some 20, hidden = h, keycol = k,
     height = 1, col_sheet = Some 0\<rparr>"

text \<open>
  A store with two visible key columns (0 and 1), a plain column (2), a hidden column
  (3) and a hidden column that carries the key flag (4).
\<close>

definition ex_store :: store where
  "ex_store = \<lparr>col_at = (\<lambda>a. ex_col ''h'' False True)
                 (0 := ex_col ''k1'' True False, 1 := ex_col ''k2'' True False,
                  2 := ex_col ''v'' False False, 4 := ex_col ''hk'' True True),
               next_addr = 5\<rparr>"

definition ex_sheet :: "addr list \<Rightarrow> int \<Rightarrow> nat sheet" where
  "ex_sheet cs w = \<lparr>sid = 0, rows = PyList [], columns = cs, cursorRowIndex = 0,
     cursorVisibleColIndex = 0, topRowIndex = 0, leftVisibleColIndex = 0,
     rightVisibleColIndex = 0, rowLayout = [], visibleColLayout = [],
     windowWidth = w, windowHeight = 25\<rparr>"

text \<open>A loaded JSON sheet that has seen the key \<open>k1\<close>, whose column is at address 0.\<close>

definition ex_json_sheet :: json_sheet where
  "ex_json_sheet =
     \<lparr>js_sheet = \<lparr>sid = 0, rows = PyList [], columns = [0], cursorRowIndex = 0,
        cursorVisibleColIndex = 0, topRowIndex = 0, leftVisibleColIndex = 0,
        rightVisibleColIndex = 0, rowLayout = [], visibleColLayout = [],
        windowWidth = 80, windowHeight = 25\<rparr>,
      colnames = Some [''k1'' \<mapsto> 0]\<rparr>"

text \<open>
  A session for the command log: every sheet is \<open>ex_sheet [0, 1, 2] 80\<close> with three
  rows, the sheet named \<open>data\<close> has identity 1, the log of sheet \<open>h\<close> has identity
  \<open>h + 100\<close>, and the command log with identity 7 holds the entries to replay.  The
  command \<open>boom\<close> raises, the command \<open>esc\<close> is escaped, every other command
  completes.
\<close>

definition ex_entry :: "string \<Rightarrow> string \<Rightarrow> entry" where
  "ex_entry s ln = \<lparr>sheet = s, col = [], row = [], longname = ln, input = [], keystrokes = [],
     comment = [], undofuncs = []\<rparr>"

definition ex_log :: "entry list \<Rightarrow> entry sheet" where
  "ex_log es = \<lparr>sid = 7, rows = PyList es, columns = [], cursorRowIndex = 0,
     cursorVisibleColIndex = 0, topRowIndex = 0, leftVisibleColIndex = 0,
     rightVisibleColIndex = 0, rowLayout = [], visibleColLayout = [],
     windowWidth = 80, windowHeight = 25\<rparr>"

definition ex_world :: "entry list \<Rightarrow> (nat, unit) world" where
  "ex_world es =
     \<lparr>w_opts = ex_opts,
      w_sheets = (\<lambda>h. (ex_sheet [0, 1, 2] 80)\<lparr>rows := PyList [10, 11, 12]\<rparr>),
      w_logs = (\<lambda>h. ex_log [])(7 := ex_log es),
      cmdlog_sheet = (\<lambda>h. h + 100),
      w_store = ex_store,
      activeCommand = Some (ex_entry ''data'' ''key-col''),
      currentReplay = Some 7,
      currentReplayRow = None,
      paused = False,
      semaphore = 0,
      sessionlog = [],
      statuses = [],
      ext = ()\<rparr>"

definition ex_api :: "(nat, unit) api" where
  "ex_api =
     \<lparr>getSheet = (\<lambda>w n. if n = ''data'' then Some 1 else None),
      sheet_true = (\<lambda>w h. True),
      push = (\<lambda>h w. w),
      set_option = (\<lambda>r w. (w, None)),
      exec_command = (\<lambda>h r w. (w, if longname r = ''boom'' then Inl ValueError
                                      else Inr (longname r = ''esc''))),
      sync = (\<lambda>w. (w, None)),
      ui = (\<lambda>w. w),
      typed_str = (\<lambda>c r. [])\<rparr>"


section \<open>Properties of the column layout\<close>

lemmas ex_defs = ex_opts_def ex_getMaxWidth_def ex_col_def ex_store_def ex_sheet_def

lemmas sheet_defs = nRows_def keyCols_def visibleCols_def nVisibleCols_def nHeaderRows_def
  nFooterRows_def nVisibleRows_def visibleRows_def split_len_def py_slice_def

lemma set_update_subset: "set (AList.update k v al) \<subseteq> insert (k, v) (set al)"
  by (induction al) auto

lemma keys_update: "fst ` set (AList.update k v al) = insert k (fst ` set al)"
  using dom_update [of k v al] by simp

lemma body_vcolidx [simp]:
  "l_vcolidx (calcColLayout_body opts g s vcols kcols vrows j ls) = j"
  by (simp add: calcColLayout_body_def Let_def)

lemma body_keys:
  "fst ` set (l_layout (calcColLayout_body opts g s vcols kcols vrows j ls)) =
     (if vcols ! j \<in> set kcols \<or> leftVisibleColIndex s \<le> int j
      then insert (int j) (fst ` set (l_layout ls)) else fst ` set (l_layout ls))"
  by (simp add: calcColLayout_body_def Let_def keys_update)

lemma body_x_unchanged:
  "\<not> (vcols ! j \<in> set kcols \<or> leftVisibleColIndex s \<le> int j) \<Longrightarrow>
     l_x (calcColLayout_body opts g s vcols kcols vrows j ls) = l_x ls"
  by (simp add: calcColLayout_body_def Let_def)

lemma body_entries:
  "(i, x, w) \<in> set (l_layout (calcColLayout_body opts g s vcols kcols vrows j ls)) \<Longrightarrow>
     (i, x, w) \<in> set (l_layout ls) \<or> x = l_x ls"
  using set_update_subset
  by (fastforce simp add: calcColLayout_body_def Let_def split: if_splits)

lemma body_flags:
  "hidden (col_at (l_store (calcColLayout_body opts g s vcols kcols vrows j ls)) a) = hidden (col_at (l_store ls) a)"
  "keycol (col_at (l_store (calcColLayout_body opts g s vcols kcols vrows j ls)) a) = keycol (col_at (l_store ls) a)"
  "name (col_at (l_store (calcColLayout_body opts g s vcols kcols vrows j ls)) a) = name (col_at (l_store ls) a)"
  by (simp_all add: calcColLayout_body_def Let_def)

lemma for_entries:
  "(i, x, w) \<in> set (l_layout (calcColLayout_for opts g s vcols kcols vrows idxs ls)) \<Longrightarrow>
   l_x ls \<le> max 0 (windowWidth s - 1) \<Longrightarrow>
   \<forall>(i, x, w) \<in> set (l_layout ls). x \<le> max 0 (windowWidth s - 1) \<Longrightarrow>
   x \<le> max 0 (windowWidth s - 1)"
proof (induction idxs arbitrary: ls)
  case Nil
  then show ?case by auto
next
  case (Cons j idxs)
  let ?ls' = "calcColLayout_body opts g s vcols kcols vrows j ls"
  have ent: "\<forall>(i, x, w) \<in> set (l_layout ?ls'). x \<le> max 0 (windowWidth s - 1)"
    using Cons.prems(2,3) body_entries [of _ _ _ opts g s vcols kcols vrows j ls] by fastforce
  show ?case
  proof (cases "l_x ?ls' > windowWidth s - 1")
    case True
    with Cons.prems(1) ent show ?thesis by (auto simp: Let_def)
  next
    case False
    then have "l_x ?ls' \<le> max 0 (windowWidth s - 1)" by simp
    with False Cons.prems(1) Cons.IH [of ?ls'] ent show ?thesis by (simp add: Let_def)
  qed
qed


lemma for_keys:
  "[k ..< n] = idxs \<Longrightarrow> k < n \<Longrightarrow>
   ls' = calcColLayout_for opts g s vcols kcols vrows idxs ls \<Longrightarrow>
   k \<le> l_vcolidx ls' \<and> l_vcolidx ls' < n \<and>
   fst ` set (l_layout ls') =
     fst ` set (l_layout ls) \<union>
     {int j | j. k \<le> j \<and> j \<le> l_vcolidx ls' \<and> (vcols ! j \<in> set kcols \<or> leftVisibleColIndex s \<le> int j)}"
proof (induction idxs arbitrary: k ls)
  case Nil
  then show ?case by simp
next
  case (Cons j idxs)
  let ?b = "calcColLayout_body opts g s vcols kcols vrows k ls"
  from Cons.prems have jk: "j = k" and idxs: "[Suc k ..< n] = idxs"
    by (auto simp add: upt_conv_Cons)
  show ?case
  proof (cases "l_x ?b > windowWidth s - 1 \<or> Suc k \<ge> n")
    case True
    then have "ls' = ?b"
      using Cons.prems(3) jk idxs by (auto simp: Let_def)
    then show ?thesis
      using Cons.prems(2) by (auto simp: body_keys)
  next
    case False
    then have ls': "ls' = calcColLayout_for opts g s vcols kcols vrows idxs ?b" and lt: "Suc k < n"
      using Cons.prems(3) jk by (auto simp: Let_def)
    from Cons.IH [OF idxs lt ls']
    have IH: "Suc k \<le> l_vcolidx ls'" "l_vcolidx ls' < n"
      "fst ` set (l_layout ls') = fst ` set (l_layout ?b) \<union>
        {int j | j. Suc k \<le> j \<and> j \<le> l_vcolidx ls' \<and> (vcols ! j \<in> set kcols \<or> leftVisibleColIndex s \<le> int j)}"
      by auto
    define C where "C j = (vcols ! j \<in> set kcols \<or> leftVisibleColIndex s \<le> int j)" for j
    have step: "\<And>j. k \<le> j \<Longrightarrow> C j \<Longrightarrow> \<not> C k \<Longrightarrow> Suc k \<le> j"
      by (metis Suc_leI le_neq_implies_less)
    have "{int j | j. k \<le> j \<and> j \<le> l_vcolidx ls' \<and> C j} =
        (if C k then {int k} else {}) \<union> {int j | j. Suc k \<le> j \<and> j \<le> l_vcolidx ls' \<and> C j}"
      using IH(1) step by (auto simp: Suc_le_eq order_le_less)
    then have split: "{int j | j. k \<le> j \<and> j \<le> l_vcolidx ls' \<and> (vcols ! j \<in> set kcols \<or> leftVisibleColIndex s \<le> int j)} =
        (if vcols ! k \<in> set kcols \<or> leftVisibleColIndex s \<le> int k then {int k} else {}) \<union>
        {int j | j. Suc k \<le> j \<and> j \<le> l_vcolidx ls' \<and> (vcols ! j \<in> set kcols \<or> leftVisibleColIndex s \<le> int j)}"
      unfolding C_def .
    show ?thesis
      using IH(1,2) unfolding IH(3) body_keys split by auto
  qed
qed

lemma for_nonempty:
  "[k ..< n] = idxs \<Longrightarrow>
   \<exists>j. k \<le> j \<and> j < n \<and> (vcols ! j \<in> set kcols \<or> leftVisibleColIndex s \<le> int j) \<Longrightarrow>
   l_x ls \<le> windowWidth s - 1 \<Longrightarrow>
   l_layout (calcColLayout_for opts g s vcols kcols vrows idxs ls) \<noteq> []"
proof (induction idxs arbitrary: k ls)
  case Nil
  then show ?case by auto
next
  case (Cons i idxs)
  let ?b = "calcColLayout_body opts g s vcols kcols vrows k ls"
  from Cons.prems obtain j where j: "k \<le> j" "j < n" "vcols ! j \<in> set kcols \<or> leftVisibleColIndex s \<le> int j"
    by blast
  then have kn: "k < n" by simp
  with Cons.prems(1) have ik: "i = k" and idxs: "[Suc k ..< n] = idxs"
    by (auto simp add: upt_conv_Cons)
  show ?case
  proof (cases "vcols ! k \<in> set kcols \<or> leftVisibleColIndex s \<le> int k")
    case True
    then have "int k \<in> fst ` set (l_layout ?b)"
      by (simp add: body_keys)
    moreover have "fst ` set (l_layout ?b) \<subseteq>
        fst ` set (l_layout (calcColLayout_for opts g s vcols kcols vrows (k # idxs) ls))"
    proof (cases "l_x ?b > windowWidth s - 1 \<or> Suc k \<ge> n")
      case True
      then show ?thesis using idxs by (auto simp: Let_def)
    next
      case False
      then have "Suc k < n" by simp
      from for_keys [OF idxs this refl, of opts g s vcols kcols vrows ?b] False
      show ?thesis by (auto simp: Let_def)
    qed
    ultimately show ?thesis using ik by force
  next
    case False
    then have x: "l_x ?b = l_x ls"
      by (simp add: body_x_unchanged)
    from False j have "Suc k \<le> j" by (cases "j = k") auto
    with j have ex: "\<exists>j. Suc k \<le> j \<and> j < n \<and> (vcols ! j \<in> set kcols \<or> leftVisibleColIndex s \<le> int j)"
      by blast
    from Cons.IH [OF idxs ex, of ?b] x Cons.prems(3)
    show ?thesis using ik by (simp add: Let_def)
  qed
qed


lemma for_flags:
  "hidden (col_at (l_store (calcColLayout_for opts g s vcols kcols vrows idxs ls)) a) = hidden (col_at (l_store ls) a)
   \<and> keycol (col_at (l_store (calcColLayout_for opts g s vcols kcols vrows idxs ls)) a) = keycol (col_at (l_store ls) a)
   \<and> name (col_at (l_store (calcColLayout_for opts g s vcols kcols vrows idxs ls)) a) = name (col_at (l_store ls) a)"
  by (induction idxs arbitrary: ls) (simp_all add: Let_def body_flags)

lemma calcColLayout_frame:
  assumes "calcColLayout opts g s st = (s', st')"
  shows "columns s' = columns s" "rows s' = rows s" "cursorRowIndex s' = cursorRowIndex s"
    "cursorVisibleColIndex s' = cursorVisibleColIndex s" "leftVisibleColIndex s' = leftVisibleColIndex s"
    "topRowIndex s' = topRowIndex s" "windowWidth s' = windowWidth s" "windowHeight s' = windowHeight s"
    "rowLayout s' = rowLayout s"
    "hidden (col_at st' a) = hidden (col_at st a)" "keycol (col_at st' a) = keycol (col_at st a)"
    "name (col_at st' a) = name (col_at st a)"
  using assms for_flags [of opts g s "visibleCols s st" "keyCols s st" "visibleRows s st" "[0 ..< length (visibleCols s st)]"
      "\<lparr>l_store = st, l_layout = [], l_x = 0, l_vcolidx = 0\<rparr>" a]
  by (auto simp: calcColLayout_def Let_def)

lemma calcColLayout_visibleCols:
  assumes "calcColLayout opts g s st = (s', st')"
  shows "keyCols s' st' = keyCols s st" "visibleCols s' st' = visibleCols s st"
    "nVisibleCols s' st' = nVisibleCols s st"
  using calcColLayout_frame [OF assms]
  by (simp_all add: keyCols_def visibleCols_def nVisibleCols_def)

lemma calcColLayout_keys:
  assumes "calcColLayout opts g s st = (s', st')" and "visibleCols s st \<noteq> []"
  shows "0 \<le> rightVisibleColIndex s'" "rightVisibleColIndex s' < nVisibleCols s st"
    "fst ` set (visibleColLayout s') =
       {int j | j. int j \<le> rightVisibleColIndex s' \<and>
          (visibleCols s st ! j \<in> set (keyCols s st) \<or> leftVisibleColIndex s \<le> int j)}"
proof -
  let ?ls = "calcColLayout_for opts g s (visibleCols s st) (keyCols s st) (visibleRows s st)
      [0 ..< length (visibleCols s st)] \<lparr>l_store = st, l_layout = [], l_x = 0, l_vcolidx = 0\<rparr>"
  from assms(1) have s': "visibleColLayout s' = l_layout ?ls" "rightVisibleColIndex s' = int (l_vcolidx ?ls)"
    by (auto simp: calcColLayout_def Let_def)
  from assms(2) have pos: "0 < length (visibleCols s st)" by simp
  from for_keys [OF refl pos refl, of opts g s "visibleCols s st" "keyCols s st" "visibleRows s st"
      "\<lparr>l_store = st, l_layout = [], l_x = 0, l_vcolidx = 0\<rparr>"]
  show "0 \<le> rightVisibleColIndex s'" "rightVisibleColIndex s' < nVisibleCols s st"
    "fst ` set (visibleColLayout s') =
       {int j | j. int j \<le> rightVisibleColIndex s' \<and>
          (visibleCols s st ! j \<in> set (keyCols s st) \<or> leftVisibleColIndex s \<le> int j)}"
    by (simp_all add: s' nVisibleCols_def)
qed

lemma calcColLayout_empty:
  assumes "calcColLayout opts g s st = (s', st')" and "visibleCols s st = []"
  shows "visibleColLayout s' = []" "rightVisibleColIndex s' = 0"
  using assms by (auto simp: calcColLayout_def Let_def)

lemma calcColLayout_entries:
  assumes "calcColLayout opts g s st = (s', st')" and "(i, x, w) \<in> set (visibleColLayout s')"
  shows "x \<le> max 0 (windowWidth s - 1)"
proof -
  let ?ls0 = "\<lparr>l_store = st, l_layout = [], l_x = 0, l_vcolidx = 0\<rparr>"
  from assms have "(i, x, w) \<in> set (l_layout (calcColLayout_for opts g s (visibleCols s st) (keyCols s st)
      (visibleRows s st) [0 ..< length (visibleCols s st)] ?ls0))"
    by (auto simp: calcColLayout_def Let_def)
  from for_entries [OF this] show ?thesis by simp
qed

lemma calcColLayout_nonempty:
  assumes "calcColLayout opts g s st = (s', st')"
    and "j < length (visibleCols s st)"
    and "visibleCols s st ! j \<in> set (keyCols s st) \<or> leftVisibleColIndex s \<le> int j"
    and "1 \<le> windowWidth s"
  shows "visibleColLayout s' \<noteq> []"
proof -
  let ?ls0 = "\<lparr>l_store = st, l_layout = [], l_x = 0, l_vcolidx = 0\<rparr>"
  have "l_layout (calcColLayout_for opts g s (visibleCols s st) (keyCols s st)
      (visibleRows s st) [0 ..< length (visibleCols s st)] ?ls0) \<noteq> []"
    using assms(2,3,4) by (intro for_nonempty [OF refl]) auto
  with assms(1) show ?thesis by (auto simp: calcColLayout_def Let_def)
qed


lemma py_min_Inr:
  "xs \<noteq> [] \<Longrightarrow> \<exists>m. py_min xs = Inr m \<and> m \<in> set xs \<and> (\<forall>x \<in> set xs. m \<le> x)"
proof (cases xs)
  case Nil
  assume "xs \<noteq> []" with Nil show ?thesis by simp
next
  case (Cons y ys)
  have "fold min ys y = Min (set (y # ys))" by (simp only: Min.set_eq_fold)
  then show ?thesis using Cons Min_in [of "set (y # ys)"] Min_le [of "set (y # ys)"]
    by (auto simp del: set_simps)
qed

lemma py_max_Inr:
  "xs \<noteq> [] \<Longrightarrow> \<exists>m. py_max xs = Inr m \<and> m \<in> set xs \<and> (\<forall>x \<in> set xs. x \<le> m)"
proof (cases xs)
  case Nil
  assume "xs \<noteq> []" with Nil show ?thesis by simp
next
  case (Cons y ys)
  have "fold max ys y = Max (set (y # ys))" by (simp only: Max.set_eq_fold)
  then show ?thesis using Cons Max_in [of "set (y # ys)"] Max_ge [of "set (y # ys)"]
    by (auto simp del: set_simps)
qed

lemma checkCursor_loop_returns:
  assumes "0 \<le> cursorVisibleColIndex s" and "cursorVisibleColIndex s < nVisibleCols s st"
    and "leftVisibleColIndex s \<le> cursorVisibleColIndex s" and "1 \<le> windowWidth s"
  shows "\<exists>s' st'. checkCursor_loop opts g s st = Some (Inr (s', st'))
           \<and> cursorVisibleColIndex s' = cursorVisibleColIndex s
           \<and> cursorRowIndex s' = cursorRowIndex s
           \<and> rows s' = rows s
           \<and> nVisibleCols s' st' = nVisibleCols s st
           \<and> leftVisibleColIndex s \<le> leftVisibleColIndex s'
           \<and> leftVisibleColIndex s' \<le> cursorVisibleColIndex s"
  using assms
proof (induction "nat (cursorVisibleColIndex s - leftVisibleColIndex s)" arbitrary: s st rule: less_induct)
  case less
  let ?cur = "cursorVisibleColIndex s"
  show ?case
  proof (cases "leftVisibleColIndex s = ?cur")
    case True
    then show ?thesis by (subst checkCursor_loop.simps) simp
  next
    case False
    with less.prems have lt: "leftVisibleColIndex s < ?cur" by simp
    obtain s1 st1 where c: "calcColLayout opts g s st = (s1, st1)" by (cases "calcColLayout opts g s st")
    note fr = calcColLayout_frame [OF c] and vc = calcColLayout_visibleCols [OF c]
    from less.prems have ne: "visibleCols s st \<noteq> []" by (auto simp: nVisibleCols_def)
    note ks = calcColLayout_keys [OF c ne]
    let ?keys = "map fst (visibleColLayout s1)"
    have curj: "nat ?cur < length (visibleCols s st)"
      using less.prems by (simp add: nVisibleCols_def)
    have "visibleColLayout s1 \<noteq> []"
      using calcColLayout_nonempty [OF c curj] less.prems by simp
    then have kne: "?keys \<noteq> []" by simp
    from py_min_Inr [OF kne] obtain m where m: "py_min ?keys = Inr m" "m \<in> set ?keys" "\<forall>x \<in> set ?keys. m \<le> x"
      by blast
    from py_max_Inr [OF kne] obtain M where M: "py_max ?keys = Inr M" "M \<in> set ?keys" "\<forall>x \<in> set ?keys. x \<le> M"
      by blast
    have keys_eq: "set ?keys = {int j | j. int j \<le> rightVisibleColIndex s1 \<and>
          (visibleCols s st ! j \<in> set (keyCols s st) \<or> leftVisibleColIndex s \<le> int j)}"
      using ks(3) by simp
    have cur_in: "?cur \<le> rightVisibleColIndex s1 \<Longrightarrow> ?cur \<in> set ?keys"
    proof -
      assume a: "?cur \<le> rightVisibleColIndex s1"
      have "int (nat ?cur) = ?cur" using less.prems by simp
      then show ?thesis unfolding keys_eq using a lt
        by (intro CollectI exI [of _ "nat ?cur"]) simp
    qed
    have m_le: "m \<le> ?cur"
    proof (cases "?cur \<le> rightVisibleColIndex s1")
      case True
      with cur_in m(3) show ?thesis by blast
    next
      case False
      moreover from m(2) have "m \<le> rightVisibleColIndex s1" unfolding keys_eq by auto
      ultimately show ?thesis by simp
    qed
    have M_le: "M \<le> rightVisibleColIndex s1"
      using M(2) unfolding keys_eq by auto
    let ?s2 = "s1\<lparr>leftVisibleColIndex := leftVisibleColIndex s1 + 1\<rparr>"
    have nv2: "nVisibleCols ?s2 st1 = nVisibleCols s st"
      using vc(3) by (simp add: nVisibleCols_def visibleCols_def keyCols_def)
    have rec: "\<exists>s' st'. checkCursor_loop opts g ?s2 st1 = Some (Inr (s', st'))
           \<and> cursorVisibleColIndex s' = cursorVisibleColIndex ?s2
           \<and> cursorRowIndex s' = cursorRowIndex ?s2
           \<and> rows s' = rows ?s2
           \<and> nVisibleCols s' st' = nVisibleCols ?s2 st1
           \<and> leftVisibleColIndex ?s2 \<le> leftVisibleColIndex s'
           \<and> leftVisibleColIndex s' \<le> cursorVisibleColIndex ?s2"
      using less.prems lt fr nv2 by (intro less.hyps) simp_all
    then obtain s' st' where r: "checkCursor_loop opts g ?s2 st1 = Some (Inr (s', st'))"
      "cursorVisibleColIndex s' = ?cur" "cursorRowIndex s' = cursorRowIndex s" "rows s' = rows s"
      "nVisibleCols s' st' = nVisibleCols s st" "leftVisibleColIndex s + 1 \<le> leftVisibleColIndex s'"
      "leftVisibleColIndex s' \<le> ?cur"
      using fr nv2 by auto
    show ?thesis
    proof (cases "?cur > M")
      case True
      then have "max ((M - ?cur) div 2) 1 = 1" by simp
      then show ?thesis
        using r False True m m_le M c fr
        by (subst checkCursor_loop.simps) simp
    next
      case False
      then have "?cur \<le> rightVisibleColIndex s1" using M_le by simp
      from cur_in [OF this] obtain cx cw where look: "map_of (visibleColLayout s1) ?cur = Some (cx, cw)"
        by (cases "map_of (visibleColLayout s1) ?cur") (auto simp: map_of_eq_None_iff)
      show ?thesis
      proof (cases "cx + cw < windowWidth s1")
        case True
        then show ?thesis
          using \<open>leftVisibleColIndex s \<noteq> ?cur\<close> False m m_le M c fr look vc less.prems
          by (subst checkCursor_loop.simps) simp
      next
        case nofit: False
        then show ?thesis
          using r \<open>leftVisibleColIndex s \<noteq> ?cur\<close> False m m_le M c fr look
          by (subst checkCursor_loop.simps) simp
      qed
    qed
  qed
qed


lemma checkCursor_rows_frame:
  "columns (checkCursor_rows s st) = columns s"
  "rows (checkCursor_rows s st) = rows s"
  "windowWidth (checkCursor_rows s st) = windowWidth s"
  "leftVisibleColIndex (checkCursor_rows s st) = leftVisibleColIndex s"
  by (simp_all add: checkCursor_rows_def Let_def)

lemma checkCursor_rows_nVisibleCols:
  "nVisibleCols (checkCursor_rows s st) st = nVisibleCols s st"
  by (simp add: nVisibleCols_def visibleCols_def keyCols_def checkCursor_rows_frame)

lemma checkCursor_rows_row_bounds:
  "0 \<le> cursorRowIndex (checkCursor_rows s st)"
  "cursorRowIndex (checkCursor_rows s st) < max (nRows s) 1"
  by (auto simp add: checkCursor_rows_def Let_def nRows_def)

lemma checkCursor_rows_col_bounds:
  "1 \<le> nVisibleCols s st \<Longrightarrow> 0 \<le> cursorVisibleColIndex (checkCursor_rows s st)"
  "1 \<le> nVisibleCols s st \<Longrightarrow> cursorVisibleColIndex (checkCursor_rows s st) < nVisibleCols s st"
  by (auto simp add: checkCursor_rows_def Let_def nVisibleCols_def visibleCols_def keyCols_def)

lemma checkCursor_visible:
  assumes "1 \<le> nVisibleCols s st" and "1 \<le> windowWidth s"
  shows "\<exists>s' st'. checkCursor opts g s st = Some (Inr (s', st'))
     \<and> 0 \<le> cursorRowIndex s' \<and> cursorRowIndex s' < max (nRows s') 1
     \<and> 0 \<le> cursorVisibleColIndex s' \<and> cursorVisibleColIndex s' < max (nVisibleCols s' st') 1"
proof -
  let ?s1 = "checkCursor_rows s st"
  note rb = checkCursor_rows_row_bounds [of s st]
  note cb = checkCursor_rows_col_bounds [OF assms(1)]
  note nv = checkCursor_rows_nVisibleCols [of s st]
  show ?thesis
  proof (cases "cursorVisibleColIndex ?s1 - leftVisibleColIndex ?s1 \<le> 0")
    case True
    have "nVisibleCols (?s1\<lparr>leftVisibleColIndex := cursorVisibleColIndex ?s1\<rparr>) st = nVisibleCols s st"
      using nv by (simp add: nVisibleCols_def visibleCols_def keyCols_def)
    moreover have "nRows (?s1\<lparr>leftVisibleColIndex := cursorVisibleColIndex ?s1\<rparr>) = nRows s"
      by (simp add: nRows_def checkCursor_rows_frame)
    ultimately show ?thesis
      using True rb cb assms(1) by (simp add: checkCursor_def Let_def)
  next
    case False
    have "\<exists>s' st'. checkCursor_loop opts g ?s1 st = Some (Inr (s', st'))
           \<and> cursorVisibleColIndex s' = cursorVisibleColIndex ?s1
           \<and> cursorRowIndex s' = cursorRowIndex ?s1
           \<and> rows s' = rows ?s1
           \<and> nVisibleCols s' st' = nVisibleCols ?s1 st
           \<and> leftVisibleColIndex ?s1 \<le> leftVisibleColIndex s'
           \<and> leftVisibleColIndex s' \<le> cursorVisibleColIndex ?s1"
      using False cb nv assms(2) by (intro checkCursor_loop_returns) (simp_all add: checkCursor_rows_frame)
    then obtain s' st' where r: "checkCursor_loop opts g ?s1 st = Some (Inr (s', st'))"
      "cursorVisibleColIndex s' = cursorVisibleColIndex ?s1" "cursorRowIndex s' = cursorRowIndex ?s1"
      "rows s' = rows ?s1" "nVisibleCols s' st' = nVisibleCols ?s1 st"
      by blast
    have "nRows s' = nRows s" using r(4) by (simp add: nRows_def checkCursor_rows_frame)
    then show ?thesis
      using False r rb cb nv assms(1) by (simp add: checkCursor_def Let_def)
  qed
qed

section \<open>Cursor bounds after \<^verbatim>\<open>checkCursor\<close>\<close>

text \<open>
  Claim C1: after \<^verbatim>\<open>checkCursor\<close> returns, \<open>0 \<le> cursorRowIndex < max(nRows, 1)\<close> and
  \<open>0 \<le> cursorVisibleColIndex < max(nVisibleCols, 1)\<close>.  The row clamp is guarded by
  \<^verbatim>\<open>self.nRows == 0\<close>; the column clamp has no such guard.  On a sheet whose only
  column is hidden, with the cursor on visible column 1, \<^verbatim>\<open>checkCursor\<close> returns
  normally and leaves \<open>cursorVisibleColIndex = -1\<close>.  (\<open>checkCursor_visible\<close> above
  shows both bounds as soon as one column is visible.)
\<close>

theorem checkCursor_hidden_columns:
  "\<exists>s' st'. checkCursor ex_opts ex_getMaxWidth ((ex_sheet [3] 80)\<lparr>cursorVisibleColIndex := 1\<rparr>) ex_store
       = Some (Inr (s', st'))
     \<and> nVisibleCols s' st' = 0 \<and> cursorVisibleColIndex s' = - 1 \<and> leftVisibleColIndex s' = - 1"
  by (simp add: checkCursor_def checkCursor_rows_def ex_defs sheet_defs Let_def)

text \<open>
  Claim C8: \<^verbatim>\<open>checkCursor\<close> completes without raising for every sheet state,
  \<open>nVisibleCols = 0\<close> included.  With no visible column, the cursor at \<open>-1\<close> and the
  left offset at \<open>-1\<close> (the state the previous theorem ends in), the clamp sets the
  cursor to 0, the scroll loop is entered, \<^verbatim>\<open>calcColLayout\<close> lays out nothing and
  \<^verbatim>\<open>min(self.visibleColLayout.keys())\<close> raises \<^verbatim>\<open>ValueError\<close>: calling
  \<^verbatim>\<open>checkCursor\<close> twice on the sheet of C1 raises in the second call.
  (\<open>checkCursor_visible\<close> and \<open>checkCursor_loop_returns\<close> show that with a visible
  column and a window at least one character wide the loop ends without raising, the
  left offset moving right, and never past the cursor.)
\<close>

theorem checkCursor_hidden_columns_raises:
  "checkCursor ex_opts ex_getMaxWidth
      ((ex_sheet [3] 80)\<lparr>cursorVisibleColIndex := - 1, leftVisibleColIndex := - 1\<rparr>) ex_store
     = Some (Inl ValueError)
   \<and> (\<exists>s' st'. checkCursor ex_opts ex_getMaxWidth ((ex_sheet [3] 80)\<lparr>cursorVisibleColIndex := 1\<rparr>) ex_store
           = Some (Inr (s', st'))
         \<and> checkCursor ex_opts ex_getMaxWidth s' st' = Some (Inl ValueError))"
  apply (simp add: checkCursor_def checkCursor_rows_def ex_defs sheet_defs Let_def)
  apply (subst checkCursor_loop.simps)
  apply (simp add: calcColLayout_def ex_defs sheet_defs Let_def)
  done

section \<open>The layout that \<^verbatim>\<open>calcColLayout\<close> stores\<close>

text \<open>
  What one pass does to the store, to \<open>x\<close> and to the layout, and what the loop does
  to the store: a width that is set stays, and without visible rows nothing changes.
\<close>

lemma body_store:
  "width (col_at (l_store ls) a) \<noteq> None \<or> vrows = [] \<or> a \<noteq> vcols ! j \<Longrightarrow>
     col_at (l_store (calcColLayout_body opts g s vcols kcols vrows j ls)) a = col_at (l_store ls) a"
  "vrows = [] \<Longrightarrow> l_store (calcColLayout_body opts g s vcols kcols vrows j ls) = l_store ls"
  "vrows \<noteq> [] \<Longrightarrow>
     width (col_at (l_store (calcColLayout_body opts g s vcols kcols vrows j ls)) (vcols ! j)) \<noteq> None"
  "next_addr (l_store (calcColLayout_body opts g s vcols kcols vrows j ls)) = next_addr (l_store ls)"
  by (auto simp: calcColLayout_body_def Let_def)

lemma body_delayed:
  "width (col_at (l_store ls) (vcols ! j)) = None \<Longrightarrow> vrows \<noteq> [] \<Longrightarrow>
     col_at (l_store (calcColLayout_body opts g s vcols kcols vrows j ls)) (vcols ! j)
       = (col_at (l_store ls) (vcols ! j))
           \<lparr>width := Some (delayed_width opts g (l_store ls) vcols vrows j)\<rparr>"
  by (simp add: calcColLayout_body_def delayed_width_def Let_def)

lemma body_x:
  "l_x (calcColLayout_body opts g s vcols kcols vrows j ls)
     = l_x ls + (if layout_shown s vcols kcols j
                 then layout_width opts (l_store (calcColLayout_body opts g s vcols kcols vrows j ls))
                        kcols (vcols ! j) + int (length (disp_column_sep opts))
                 else 0)"
  by (simp add: calcColLayout_body_def layout_shown_def layout_width_def Let_def)

lemma body_layout:
  "l_layout (calcColLayout_body opts g s vcols kcols vrows j ls)
     = (if layout_shown s vcols kcols j
        then AList.update (int j)
               (l_x ls,
                min (layout_width opts (l_store (calcColLayout_body opts g s vcols kcols vrows j ls))
                       kcols (vcols ! j))
                    (windowWidth s - l_x ls))
               (l_layout ls)
        else l_layout ls)"
  by (simp add: calcColLayout_body_def layout_shown_def layout_width_def Let_def)

lemma for_store:
  "width (col_at (l_store ls) a) \<noteq> None \<or> vrows = [] \<Longrightarrow>
     col_at (l_store (calcColLayout_for opts g s vcols kcols vrows idxs ls)) a = col_at (l_store ls) a"
proof (induction idxs arbitrary: ls)
  case Nil
  show ?case by simp
next
  case (Cons j idxs)
  let ?b = "calcColLayout_body opts g s vcols kcols vrows j ls"
  have b: "col_at (l_store ?b) a = col_at (l_store ls) a"
    using Cons.prems by (intro body_store(1)) auto
  then have "width (col_at (l_store ?b) a) \<noteq> None \<or> vrows = []"
    using Cons.prems by auto
  from Cons.IH [OF this] b show ?case by (simp add: Let_def)
qed

lemma for_next_addr:
  "next_addr (l_store (calcColLayout_for opts g s vcols kcols vrows idxs ls)) = next_addr (l_store ls)"
  by (induction idxs arbitrary: ls) (simp_all add: Let_def body_store(4))

lemma for_width_stable:
  "layout_width opts (l_store (calcColLayout_for opts g s vcols kcols vrows idxs
       (calcColLayout_body opts g s vcols kcols vrows j ls))) kcols (vcols ! j)
     = layout_width opts (l_store (calcColLayout_body opts g s vcols kcols vrows j ls)) kcols (vcols ! j)"
proof -
  let ?b = "calcColLayout_body opts g s vcols kcols vrows j ls"
  have "width (col_at (l_store ?b) (vcols ! j)) \<noteq> None \<or> vrows = []"
    using body_store(3) [of vrows opts g s vcols kcols j ls] by blast
  from for_store [OF this] show ?thesis by (simp add: layout_width_def)
qed

lemma layout_x_simps:
  "layout_x opts st s vcols kcols k k = 0"
  "k < j \<Longrightarrow> layout_x opts st s vcols kcols k j
     = (if layout_shown s vcols kcols k
        then layout_width opts st kcols (vcols ! k) + int (length (disp_column_sep opts)) else 0)
       + layout_x opts st s vcols kcols (Suc k) j"
  by (simp_all add: layout_x_def upt_conv_Cons)

text \<open>
  The loop from the index \<open>k\<close>: where it stops, what \<open>x\<close> is then, and what the layout
  maps each index to, in terms of the widths in the store that the loop leaves.
\<close>

lemma for_spec:
  "[k ..< n] = idxs \<Longrightarrow> k < n \<Longrightarrow>
   ls' = calcColLayout_for opts g s vcols kcols vrows idxs ls \<Longrightarrow>
   l_x ls' = l_x ls + layout_x opts (l_store ls') s vcols kcols k (Suc (l_vcolidx ls'))
   \<and> (\<forall>j. k \<le> j \<and> j < l_vcolidx ls' \<longrightarrow>
         l_x ls + layout_x opts (l_store ls') s vcols kcols k (Suc j) \<le> windowWidth s - 1)
   \<and> (Suc (l_vcolidx ls') < n \<longrightarrow> l_x ls' > windowWidth s - 1)
   \<and> (\<forall>i. map_of (l_layout ls') i =
         (if int k \<le> i \<and> i \<le> int (l_vcolidx ls') \<and> layout_shown s vcols kcols (nat i)
          then Some (l_x ls + layout_x opts (l_store ls') s vcols kcols k (nat i),
                     min (layout_width opts (l_store ls') kcols (vcols ! nat i))
                         (windowWidth s - (l_x ls + layout_x opts (l_store ls') s vcols kcols k (nat i))))
          else map_of (l_layout ls) i))"
proof (induction idxs arbitrary: k ls)
  case Nil
  then show ?case by simp
next
  case (Cons j idxs)
  let ?b = "calcColLayout_body opts g s vcols kcols vrows k ls"
  let ?sep = "int (length (disp_column_sep opts))"
  let ?f = "\<lambda>st i. if layout_shown s vcols kcols i
      then layout_width opts st kcols (vcols ! i) + ?sep else 0"
  from Cons.prems have jk: "j = k" and idxs: "[Suc k ..< n] = idxs"
    by (auto simp add: upt_conv_Cons)
  have xb: "l_x ?b = l_x ls + ?f (l_store ?b) k" by (rule body_x)
  have mb: "map_of (l_layout ?b) i =
      (if i = int k \<and> layout_shown s vcols kcols k
       then Some (l_x ls, min (layout_width opts (l_store ?b) kcols (vcols ! k)) (windowWidth s - l_x ls))
       else map_of (l_layout ls) i)" for i
    by (simp add: body_layout update_conv')
  show ?case
  proof (cases "l_x ?b > windowWidth s - 1 \<or> Suc k \<ge> n")
    case True
    then have ls': "ls' = ?b"
      using Cons.prems(3) jk idxs by (auto simp: Let_def)
    have r: "l_vcolidx ls' = k" by (simp add: ls')
    have x1: "layout_x opts (l_store ?b) s vcols kcols k (Suc k) = ?f (l_store ?b) k"
      by (simp add: layout_x_simps)
    have 1: "l_x ?b = l_x ls + layout_x opts (l_store ?b) s vcols kcols k (Suc k)"
      using xb by (simp add: x1)
    have 3: "Suc k < n \<longrightarrow> l_x ?b > windowWidth s - 1"
      using True by auto
    have 4: "map_of (l_layout ?b) i =
        (if int k \<le> i \<and> i \<le> int k \<and> layout_shown s vcols kcols (nat i)
         then Some (l_x ls + layout_x opts (l_store ?b) s vcols kcols k (nat i),
                    min (layout_width opts (l_store ?b) kcols (vcols ! nat i))
                        (windowWidth s - (l_x ls + layout_x opts (l_store ?b) s vcols kcols k (nat i))))
         else map_of (l_layout ls) i)" for i
    proof (cases "i = int k")
      case True
      then show ?thesis by (simp add: mb layout_x_simps(1))
    next
      case False
      then show ?thesis by (auto simp: mb)
    qed
    show ?thesis
      unfolding r unfolding ls' using 1 3 4 by auto
  next
    case False
    then have ls': "ls' = calcColLayout_for opts g s vcols kcols vrows idxs ?b"
      and lt: "Suc k < n" and xle: "l_x ?b \<le> windowWidth s - 1"
      using Cons.prems(3) jk by (auto simp: Let_def)
    let ?st = "l_store ls'"
    let ?r = "l_vcolidx ls'"
    note IH = Cons.IH [OF idxs lt ls']
    have IH1: "l_x ls' = l_x ?b + layout_x opts ?st s vcols kcols (Suc k) (Suc ?r)"
      using IH by blast
    have IH2: "\<forall>j. Suc k \<le> j \<and> j < ?r \<longrightarrow>
        l_x ?b + layout_x opts ?st s vcols kcols (Suc k) (Suc j) \<le> windowWidth s - 1"
      using IH by blast
    have IH4: "map_of (l_layout ls') i =
        (if int (Suc k) \<le> i \<and> i \<le> int ?r \<and> layout_shown s vcols kcols (nat i)
         then Some (l_x ?b + layout_x opts ?st s vcols kcols (Suc k) (nat i),
                    min (layout_width opts ?st kcols (vcols ! nat i))
                        (windowWidth s - (l_x ?b + layout_x opts ?st s vcols kcols (Suc k) (nat i))))
         else map_of (l_layout ?b) i)" for i
      using IH by blast
    have rk: "Suc k \<le> ?r"
      using for_keys [OF idxs lt ls'] by simp
    have wk: "layout_width opts ?st kcols (vcols ! k) = layout_width opts (l_store ?b) kcols (vcols ! k)"
      unfolding ls' by (rule for_width_stable)
    then have fk: "?f ?st k = ?f (l_store ?b) k" by simp
    have X: "l_x ls + layout_x opts ?st s vcols kcols k m
        = l_x ?b + layout_x opts ?st s vcols kcols (Suc k) m" if "k < m" for m
      using that xb fk by (simp add: layout_x_simps(2))
    have 1: "l_x ls' = l_x ls + layout_x opts ?st s vcols kcols k (Suc ?r)"
      using IH1 rk by (simp add: X)
    have 2: "\<forall>j. k \<le> j \<and> j < ?r \<longrightarrow>
        l_x ls + layout_x opts ?st s vcols kcols k (Suc j) \<le> windowWidth s - 1"
    proof (intro allI impI)
      fix j
      assume j: "k \<le> j \<and> j < ?r"
      show "l_x ls + layout_x opts ?st s vcols kcols k (Suc j) \<le> windowWidth s - 1"
      proof (cases "j = k")
        case True
        then show ?thesis using xle by (simp add: X layout_x_simps(1))
      next
        case False
        with j have "Suc k \<le> j \<and> j < ?r" by simp
        with IH2 show ?thesis by (simp add: X)
      qed
    qed
    have 3: "Suc ?r < n \<longrightarrow> l_x ls' > windowWidth s - 1"
      using IH by blast
    have 4: "map_of (l_layout ls') i =
        (if int k \<le> i \<and> i \<le> int ?r \<and> layout_shown s vcols kcols (nat i)
         then Some (l_x ls + layout_x opts ?st s vcols kcols k (nat i),
                    min (layout_width opts ?st kcols (vcols ! nat i))
                        (windowWidth s - (l_x ls + layout_x opts ?st s vcols kcols k (nat i))))
         else map_of (l_layout ls) i)" for i
    proof (cases "int (Suc k) \<le> i \<and> i \<le> int ?r \<and> layout_shown s vcols kcols (nat i)")
      case True
      then have "k < nat i" by linarith
      from X [OF this] True IH4 [of i] show ?thesis by simp
    next
      case outside: False
      then have "map_of (l_layout ls') i = map_of (l_layout ?b) i"
        using IH4 [of i] by (auto split: if_splits)
      also have "\<dots> = (if i = int k \<and> layout_shown s vcols kcols k
          then Some (l_x ls, min (layout_width opts ?st kcols (vcols ! k)) (windowWidth s - l_x ls))
          else map_of (l_layout ls) i)"
        by (simp add: mb wk)
      finally show ?thesis
        using outside rk by (cases "i = int k") (auto simp: layout_x_simps(1))
    qed
    from 1 2 3 4 show ?thesis by blast
  qed
qed

lemma for_untouched:
  "[k ..< n] = idxs \<Longrightarrow> k < n \<Longrightarrow>
   ls' = calcColLayout_for opts g s vcols kcols vrows idxs ls \<Longrightarrow>
   \<forall>j. k \<le> j \<and> j \<le> l_vcolidx ls' \<longrightarrow> vcols ! j \<noteq> a \<Longrightarrow>
   col_at (l_store ls') a = col_at (l_store ls) a"
proof (induction idxs arbitrary: k ls)
  case Nil
  then show ?case by simp
next
  case (Cons j idxs)
  let ?b = "calcColLayout_body opts g s vcols kcols vrows k ls"
  from Cons.prems have jk: "j = k" and idxs: "[Suc k ..< n] = idxs"
    by (auto simp add: upt_conv_Cons)
  have kr: "k \<le> l_vcolidx ls'"
    using for_keys [OF Cons.prems(1,2,3)] by simp
  with Cons.prems(4) have "a \<noteq> vcols ! k" by blast
  then have b: "col_at (l_store ?b) a = col_at (l_store ls) a"
    by (intro body_store(1)) simp
  show ?case
  proof (cases "l_x ?b > windowWidth s - 1 \<or> Suc k \<ge> n")
    case True
    then have "ls' = ?b"
      using Cons.prems(3) jk idxs by (auto simp: Let_def)
    with b show ?thesis by simp
  next
    case False
    then have ls': "ls' = calcColLayout_for opts g s vcols kcols vrows idxs ?b" and lt: "Suc k < n"
      using Cons.prems(3) jk by (auto simp: Let_def)
    have "\<forall>j. Suc k \<le> j \<and> j \<le> l_vcolidx ls' \<longrightarrow> vcols ! j \<noteq> a"
      using Cons.prems(4) by auto
    from Cons.IH [OF idxs lt ls' this] b show ?thesis by simp
  qed
qed

lemma for_delayed:
  "[k ..< n] = idxs \<Longrightarrow> k < n \<Longrightarrow>
   ls' = calcColLayout_for opts g s vcols kcols vrows idxs ls \<Longrightarrow>
   k \<le> j \<Longrightarrow> j \<le> l_vcolidx ls' \<Longrightarrow>
   \<forall>i. k \<le> i \<and> i < j \<longrightarrow> vcols ! i \<noteq> vcols ! j \<Longrightarrow>
   width (col_at (l_store ls) (vcols ! j)) = None \<Longrightarrow> vrows \<noteq> [] \<Longrightarrow>
   col_at (l_store ls') (vcols ! j)
     = (col_at (l_store ls) (vcols ! j))\<lparr>width := Some (delayed_width opts g (l_store ls) vcols vrows j)\<rparr>"
proof (induction idxs arbitrary: k ls)
  case Nil
  then show ?case by simp
next
  case (Cons i idxs)
  let ?b = "calcColLayout_body opts g s vcols kcols vrows k ls"
  let ?c = "vcols ! j"
  from Cons.prems have ik: "i = k" and idxs: "[Suc k ..< n] = idxs"
    by (auto simp add: upt_conv_Cons)
  show ?case
  proof (cases "j = k")
    case True
    have b: "col_at (l_store ?b) ?c
        = (col_at (l_store ls) ?c)\<lparr>width := Some (delayed_width opts g (l_store ls) vcols vrows j)\<rparr>"
      unfolding True using Cons.prems(7,8) unfolding True by (rule body_delayed)
    then have "width (col_at (l_store ?b) ?c) \<noteq> None \<or> vrows = []" by simp
    from for_store [OF this, of opts g s vcols kcols idxs]
    have "col_at (l_store (calcColLayout_for opts g s vcols kcols vrows idxs ?b)) ?c
        = col_at (l_store ?b) ?c" .
    moreover have "ls' = ?b \<or> ls' = calcColLayout_for opts g s vcols kcols vrows idxs ?b"
      using Cons.prems(3) ik by (auto simp: Let_def)
    ultimately show ?thesis using b by auto
  next
    case False
    with Cons.prems(4) have kj: "Suc k \<le> j" by simp
    have "l_vcolidx ?b = k" by simp
    with kj Cons.prems(5) have nb: "ls' \<noteq> ?b" by auto
    have lt: "Suc k < n"
    proof (rule ccontr)
      assume "\<not> Suc k < n"
      then have "idxs = []" using idxs by auto
      then have "ls' = ?b" using Cons.prems(3) ik by (simp add: Let_def)
      with nb show False by simp
    qed
    have ls': "ls' = calcColLayout_for opts g s vcols kcols vrows idxs ?b"
      using Cons.prems(3) ik nb by (auto simp: Let_def split: if_splits)
    have "vcols ! k \<noteq> ?c" using Cons.prems(6) kj by auto
    then have b: "col_at (l_store ?b) ?c = col_at (l_store ls) ?c"
      by (intro body_store(1)) simp
    then have d: "delayed_width opts g (l_store ?b) vcols vrows j
        = delayed_width opts g (l_store ls) vcols vrows j"
      by (simp add: delayed_width_def)
    have "\<forall>i. Suc k \<le> i \<and> i < j \<longrightarrow> vcols ! i \<noteq> ?c"
      using Cons.prems(6) by auto
    from Cons.IH [OF idxs lt ls' kj Cons.prems(5) this] Cons.prems(7,8) b d
    show ?thesis by simp
  qed
qed

lemma calcColLayout_spec:
  assumes c: "calcColLayout opts g s st = (s', st')" and ne: "visibleCols s st \<noteq> []"
  shows "\<exists>r < length (visibleCols s st). rightVisibleColIndex s' = int r
      \<and> (\<forall>j < r. layout_x opts st' s (visibleCols s st) (keyCols s st) 0 (Suc j) \<le> windowWidth s - 1)
      \<and> (Suc r < length (visibleCols s st) \<longrightarrow>
            layout_x opts st' s (visibleCols s st) (keyCols s st) 0 (Suc r) > windowWidth s - 1)
      \<and> (\<forall>i. map_of (visibleColLayout s') i =
            (if 0 \<le> i \<and> i \<le> int r \<and> layout_shown s (visibleCols s st) (keyCols s st) (nat i)
             then Some (layout_x opts st' s (visibleCols s st) (keyCols s st) 0 (nat i),
                        min (layout_width opts st' (keyCols s st) (visibleCols s st ! nat i))
                            (windowWidth s - layout_x opts st' s (visibleCols s st) (keyCols s st) 0 (nat i)))
             else None))
      \<and> (\<forall>a. width (col_at st a) \<noteq> None \<or> visibleRows s st = []
               \<or> a \<notin> set (take (Suc r) (visibleCols s st)) \<longrightarrow> col_at st' a = col_at st a)
      \<and> (\<forall>j \<le> r. (\<forall>i < j. visibleCols s st ! i \<noteq> visibleCols s st ! j)
               \<and> width (col_at st (visibleCols s st ! j)) = None \<and> visibleRows s st \<noteq> [] \<longrightarrow>
             col_at st' (visibleCols s st ! j)
               = (col_at st (visibleCols s st ! j))
                   \<lparr>width := Some (delayed_width opts g st (visibleCols s st) (visibleRows s st) j)\<rparr>)"
proof -
  let ?vcols = "visibleCols s st" and ?kcols = "keyCols s st" and ?vrows = "visibleRows s st"
  let ?ls0 = "\<lparr>l_store = st, l_layout = [], l_x = 0, l_vcolidx = 0\<rparr>"
  define ls where "ls = calcColLayout_for opts g s ?vcols ?kcols ?vrows [0 ..< length ?vcols] ?ls0"
  define r where "r = l_vcolidx ls"
  from c have s': "visibleColLayout s' = l_layout ls" "rightVisibleColIndex s' = int r"
    and st': "st' = l_store ls"
    by (auto simp: calcColLayout_def Let_def ls_def r_def)
  from ne have pos: "0 < length ?vcols" by simp
  have rn: "r < length ?vcols"
    using for_keys [OF refl pos ls_def] by (simp add: r_def)
  note sp = for_spec [OF refl pos ls_def, folded r_def st']
  have 1: "\<forall>j < r. layout_x opts st' s ?vcols ?kcols 0 (Suc j) \<le> windowWidth s - 1"
    using sp by simp
  have x: "l_x ls = layout_x opts st' s ?vcols ?kcols 0 (Suc r)"
    using sp by simp
  have "Suc r < length ?vcols \<longrightarrow> l_x ls > windowWidth s - 1"
    using sp by blast
  then have 2: "Suc r < length ?vcols \<longrightarrow> layout_x opts st' s ?vcols ?kcols 0 (Suc r) > windowWidth s - 1"
    unfolding x .
  have 3: "map_of (visibleColLayout s') i =
      (if 0 \<le> i \<and> i \<le> int r \<and> layout_shown s ?vcols ?kcols (nat i)
       then Some (layout_x opts st' s ?vcols ?kcols 0 (nat i),
                  min (layout_width opts st' ?kcols (?vcols ! nat i))
                      (windowWidth s - layout_x opts st' s ?vcols ?kcols 0 (nat i)))
       else None)" for i
    using sp by (simp add: s')
  have 4: "col_at st' a = col_at st a"
    if a: "width (col_at st a) \<noteq> None \<or> ?vrows = [] \<or> a \<notin> set (take (Suc r) ?vcols)" for a
  proof (cases "width (col_at st a) \<noteq> None \<or> ?vrows = []")
    case True
    then have "width (col_at (l_store ?ls0) a) \<noteq> None \<or> ?vrows = []" by simp
    from for_store [OF this, of opts g s ?vcols ?kcols "[0 ..< length ?vcols]"]
    show ?thesis by (simp add: st' ls_def)
  next
    case False
    with a have "a \<notin> set (take (Suc r) ?vcols)" by blast
    then have "\<forall>j. 0 \<le> j \<and> j \<le> l_vcolidx ls \<longrightarrow> ?vcols ! j \<noteq> a"
      using rn by (auto simp: in_set_conv_nth r_def)
    from for_untouched [OF refl pos ls_def this] show ?thesis by (simp add: st')
  qed
  have 5: "col_at st' (?vcols ! j)
      = (col_at st (?vcols ! j))\<lparr>width := Some (delayed_width opts g st ?vcols ?vrows j)\<rparr>"
    if j: "j \<le> r" and d: "\<forall>i < j. ?vcols ! i \<noteq> ?vcols ! j"
      and w: "width (col_at st (?vcols ! j)) = None" and v: "?vrows \<noteq> []" for j
  proof -
    have "\<forall>i. 0 \<le> i \<and> i < j \<longrightarrow> ?vcols ! i \<noteq> ?vcols ! j" using d by simp
    from for_delayed [where j = j, OF refl pos ls_def _ _ this] j w v
    show ?thesis by (simp add: st' r_def)
  qed
  from rn s'(2) 1 2 3 4 5 show ?thesis by blast
qed

text \<open>
  Claim C2, as stated: every stored x-position is at most the window width, and the
  index of every key column is a key of \<open>visibleColLayout\<close>.  The second half fails:
  with two key columns of width 20 and a window 10 wide, the loop stores column 0 and
  breaks, since \<open>x = 21 > winWidth - 1\<close>; key column 1 is not in the map.
\<close>

theorem calcColLayout_wide_keys:
  "visibleCols (ex_sheet [0, 1, 2] 10) ex_store ! 1 \<in> set (keyCols (ex_sheet [0, 1, 2] 10) ex_store)
   \<and> int 1 \<notin> fst ` set (visibleColLayout (fst (calcColLayout ex_opts ex_getMaxWidth (ex_sheet [0, 1, 2] 10) ex_store)))
   \<and> visibleColLayout (fst (calcColLayout ex_opts ex_getMaxWidth (ex_sheet [0, 1, 2] 10) ex_store)) = [(0, 0, 10)]"
  by (simp add: calcColLayout_def calcColLayout_body_def ex_defs sheet_defs Let_def upt_conv_Cons)

text \<open>
  Claim C2, amended: for a window width of at least 0 every stored x-position is at
  most the window width, and a key column is a key of \<open>visibleColLayout\<close> exactly if
  its index is at most \<open>rightVisibleColIndex\<close>, whatever the left offset is.
  \<open>rightVisibleColIndex\<close> is the first index \<open>r\<close> after whose pass \<open>x\<close> exceeds
  \<open>winWidth - 1\<close>, or the last index: an index is at most \<open>r\<close> exactly if \<open>x\<close> stayed
  within \<open>winWidth - 1\<close> after every pass before it, where \<open>x\<close> sums the width and the
  separator of the shown columns.  The map holds the shown indices up to \<open>r\<close> and
  nothing else, each with its \<^verbatim>\<open>[x, min(width, winWidth-x)]\<close>.  The widths are those
  of the store that the call leaves: a width that was set is unchanged, and a width of
  \<^verbatim>\<open>None\<close> of a column up to \<open>r\<close> is set by the delayed width-finding if there are
  visible rows.  The call changes nothing else.
\<close>

theorem calcColLayout_layout:
  assumes "calcColLayout opts getMaxWidth s st = (s', st')"
  shows "(0 \<le> windowWidth s \<longrightarrow> (\<forall>(i, x, w) \<in> set (visibleColLayout s'). x \<le> windowWidth s))
       \<and> (\<forall>j < length (visibleCols s st).
            visibleCols s st ! j \<in> set (keyCols s st) \<longrightarrow>
              (int j \<in> fst ` set (visibleColLayout s') \<longleftrightarrow> int j \<le> rightVisibleColIndex s'))
       \<and> (visibleCols s st = [] \<longrightarrow>
            rightVisibleColIndex s' = 0 \<and> visibleColLayout s' = [] \<and> st' = st)
       \<and> (visibleCols s st \<noteq> [] \<longrightarrow>
            (\<exists>r < length (visibleCols s st). rightVisibleColIndex s' = int r
              \<and> (\<forall>j < length (visibleCols s st).
                    j \<le> r \<longleftrightarrow>
                      (\<forall>i < j. layout_x opts st' s (visibleCols s st) (keyCols s st) 0 (Suc i)
                                \<le> windowWidth s - 1))
              \<and> (\<forall>i. map_of (visibleColLayout s') i =
                    (if 0 \<le> i \<and> i \<le> int r
                        \<and> layout_shown s (visibleCols s st) (keyCols s st) (nat i)
                     then Some (layout_x opts st' s (visibleCols s st) (keyCols s st) 0 (nat i),
                                min (layout_width opts st' (keyCols s st) (visibleCols s st ! nat i))
                                    (windowWidth s
                                       - layout_x opts st' s (visibleCols s st) (keyCols s st) 0 (nat i)))
                     else None))
              \<and> (\<forall>a. width (col_at st a) \<noteq> None \<or> visibleRows s st = []
                       \<or> a \<notin> set (take (Suc r) (visibleCols s st)) \<longrightarrow> col_at st' a = col_at st a)
              \<and> (\<forall>j \<le> r. (\<forall>i < j. visibleCols s st ! i \<noteq> visibleCols s st ! j)
                       \<and> width (col_at st (visibleCols s st ! j)) = None
                       \<and> visibleRows s st \<noteq> [] \<longrightarrow>
                     col_at st' (visibleCols s st ! j)
                       = (col_at st (visibleCols s st ! j))
                           \<lparr>width := Some (delayed_width opts getMaxWidth st (visibleCols s st)
                                             (visibleRows s st) j)\<rparr>)))
       \<and> next_addr st' = next_addr st
       \<and> s' = s\<lparr>visibleColLayout := visibleColLayout s',
                 rightVisibleColIndex := rightVisibleColIndex s'\<rparr>"
proof (intro conjI impI)
  assume "0 \<le> windowWidth s"
  then show "\<forall>(i, x, w) \<in> set (visibleColLayout s'). x \<le> windowWidth s"
    using calcColLayout_entries [OF assms] by fastforce
next
  show "\<forall>j < length (visibleCols s st).
      visibleCols s st ! j \<in> set (keyCols s st) \<longrightarrow>
        (int j \<in> fst ` set (visibleColLayout s') \<longleftrightarrow> int j \<le> rightVisibleColIndex s')"
  proof (intro allI impI)
    fix j
    assume j: "j < length (visibleCols s st)" "visibleCols s st ! j \<in> set (keyCols s st)"
    then have "visibleCols s st \<noteq> []" by auto
    from calcColLayout_keys(3) [OF assms this] j
    show "int j \<in> fst ` set (visibleColLayout s') \<longleftrightarrow> int j \<le> rightVisibleColIndex s'"
      by auto
  qed
next
  assume "visibleCols s st = []"
  then show "rightVisibleColIndex s' = 0" "visibleColLayout s' = []" "st' = st"
    using assms by (auto simp: calcColLayout_def Let_def)
next
  let ?vcols = "visibleCols s st" and ?kcols = "keyCols s st"
  assume ne: "visibleCols s st \<noteq> []"
  from calcColLayout_spec [OF assms ne]
  obtain r where r: "r < length ?vcols" "rightVisibleColIndex s' = int r"
    and le: "\<forall>j < r. layout_x opts st' s ?vcols ?kcols 0 (Suc j) \<le> windowWidth s - 1"
    and gt: "Suc r < length ?vcols \<longrightarrow> layout_x opts st' s ?vcols ?kcols 0 (Suc r) > windowWidth s - 1"
    and rest: "(\<forall>i. map_of (visibleColLayout s') i =
            (if 0 \<le> i \<and> i \<le> int r \<and> layout_shown s ?vcols ?kcols (nat i)
             then Some (layout_x opts st' s ?vcols ?kcols 0 (nat i),
                        min (layout_width opts st' ?kcols (?vcols ! nat i))
                            (windowWidth s - layout_x opts st' s ?vcols ?kcols 0 (nat i)))
             else None))
      \<and> (\<forall>a. width (col_at st a) \<noteq> None \<or> visibleRows s st = []
               \<or> a \<notin> set (take (Suc r) ?vcols) \<longrightarrow> col_at st' a = col_at st a)
      \<and> (\<forall>j \<le> r. (\<forall>i < j. ?vcols ! i \<noteq> ?vcols ! j)
               \<and> width (col_at st (?vcols ! j)) = None \<and> visibleRows s st \<noteq> [] \<longrightarrow>
             col_at st' (?vcols ! j)
               = (col_at st (?vcols ! j))
                   \<lparr>width := Some (delayed_width opts getMaxWidth st ?vcols (visibleRows s st) j)\<rparr>)"
    by blast
  have reach: "j \<le> r \<longleftrightarrow> (\<forall>i < j. layout_x opts st' s ?vcols ?kcols 0 (Suc i) \<le> windowWidth s - 1)"
    if j: "j < length ?vcols" for j
  proof
    assume "j \<le> r"
    with le show "\<forall>i < j. layout_x opts st' s ?vcols ?kcols 0 (Suc i) \<le> windowWidth s - 1"
      by auto
  next
    assume a: "\<forall>i < j. layout_x opts st' s ?vcols ?kcols 0 (Suc i) \<le> windowWidth s - 1"
    show "j \<le> r"
    proof (rule ccontr)
      assume "\<not> j \<le> r"
      then have "r < j" by simp
      with j have "Suc r < length ?vcols" by simp
      with gt a \<open>r < j\<close> show False by force
    qed
  qed
  from r reach rest
  show "\<exists>r < length ?vcols. rightVisibleColIndex s' = int r
      \<and> (\<forall>j < length ?vcols.
            j \<le> r \<longleftrightarrow> (\<forall>i < j. layout_x opts st' s ?vcols ?kcols 0 (Suc i) \<le> windowWidth s - 1))
      \<and> (\<forall>i. map_of (visibleColLayout s') i =
            (if 0 \<le> i \<and> i \<le> int r \<and> layout_shown s ?vcols ?kcols (nat i)
             then Some (layout_x opts st' s ?vcols ?kcols 0 (nat i),
                        min (layout_width opts st' ?kcols (?vcols ! nat i))
                            (windowWidth s - layout_x opts st' s ?vcols ?kcols 0 (nat i)))
             else None))
      \<and> (\<forall>a. width (col_at st a) \<noteq> None \<or> visibleRows s st = []
               \<or> a \<notin> set (take (Suc r) ?vcols) \<longrightarrow> col_at st' a = col_at st a)
      \<and> (\<forall>j \<le> r. (\<forall>i < j. ?vcols ! i \<noteq> ?vcols ! j)
               \<and> width (col_at st (?vcols ! j)) = None \<and> visibleRows s st \<noteq> [] \<longrightarrow>
             col_at st' (?vcols ! j)
               = (col_at st (?vcols ! j))
                   \<lparr>width := Some (delayed_width opts getMaxWidth st ?vcols (visibleRows s st) j)\<rparr>)"
    by blast
next
  show "next_addr st' = next_addr st"
    using assms for_next_addr [of opts getMaxWidth s "visibleCols s st" "keyCols s st"
        "visibleRows s st" "[0 ..< length (visibleCols s st)]"
        "\<lparr>l_store = st, l_layout = [], l_x = 0, l_vcolidx = 0\<rparr>"]
    by (auto simp: calcColLayout_def Let_def)
next
  show "s' = s\<lparr>visibleColLayout := visibleColLayout s',
      rightVisibleColIndex := rightVisibleColIndex s'\<rparr>"
    using assms by (auto simp: calcColLayout_def Let_def)
qed

theorem calcColLayout_layout_witness:
  "visibleColLayout (fst (calcColLayout ex_opts ex_getMaxWidth
       ((ex_sheet [0, 1, 2] 50)\<lparr>leftVisibleColIndex := 3\<rparr>) ex_store))
     = [(0, 0, 20), (1, 21, 20)]
   \<and> rightVisibleColIndex (fst (calcColLayout ex_opts ex_getMaxWidth
       ((ex_sheet [0, 1, 2] 50)\<lparr>leftVisibleColIndex := 3\<rparr>) ex_store)) = 2
   \<and> int 0 \<in> fst ` set (visibleColLayout (fst (calcColLayout ex_opts ex_getMaxWidth
       ((ex_sheet [0, 1, 2] 50)\<lparr>leftVisibleColIndex := 3\<rparr>) ex_store)))
   \<and> int 1 \<in> fst ` set (visibleColLayout (fst (calcColLayout ex_opts ex_getMaxWidth
       ((ex_sheet [0, 1, 2] 50)\<lparr>leftVisibleColIndex := 3\<rparr>) ex_store)))
   \<and> visibleColLayout (fst (calcColLayout ex_opts ex_getMaxWidth
       ((ex_sheet [0, 1, 2] 50)\<lparr>rows := PyList [10]\<rparr>)
       (ex_store\<lparr>col_at := (col_at ex_store)(2 := (ex_col ''v'' False False)\<lparr>width := None\<rparr>)\<rparr>)))
     = [(0, 0, 20), (1, 21, 20), (2, 42, 5)]
   \<and> width (col_at (snd (calcColLayout ex_opts ex_getMaxWidth
       ((ex_sheet [0, 1, 2] 50)\<lparr>rows := PyList [10]\<rparr>)
       (ex_store\<lparr>col_at := (col_at ex_store)(2 := (ex_col ''v'' False False)\<lparr>width := None\<rparr>)\<rparr>))) 2)
     = Some 5"
proof -
  let ?s = "(ex_sheet [0, 1, 2] 50)\<lparr>leftVisibleColIndex := 3\<rparr>"
  let ?r = "calcColLayout ex_opts ex_getMaxWidth ?s ex_store"
  have c: "?r = (fst ?r, snd ?r)" by simp
  have lay: "visibleColLayout (fst ?r) = [(0, 0, 20), (1, 21, 20)]"
    "rightVisibleColIndex (fst ?r) = 2"
    by (simp_all add: calcColLayout_def calcColLayout_body_def ex_defs sheet_defs Let_def upt_conv_Cons)
  have k: "length (visibleCols ?s ex_store) = 3"
    "visibleCols ?s ex_store ! 0 \<in> set (keyCols ?s ex_store)"
    "visibleCols ?s ex_store ! 1 \<in> set (keyCols ?s ex_store)"
    by (simp_all add: ex_defs sheet_defs)
  have len: "0 < length (visibleCols ?s ex_store)" "1 < length (visibleCols ?s ex_store)"
    by (simp_all add: ex_defs sheet_defs)
  from calcColLayout_layout [OF c]
  have key: "\<forall>j < length (visibleCols ?s ex_store).
      visibleCols ?s ex_store ! j \<in> set (keyCols ?s ex_store) \<longrightarrow>
        (int j \<in> fst ` set (visibleColLayout (fst ?r)) \<longleftrightarrow> int j \<le> rightVisibleColIndex (fst ?r))"
    by blast
  have keys: "int 0 \<in> fst ` set (visibleColLayout (fst ?r))"
    "int 1 \<in> fst ` set (visibleColLayout (fst ?r))"
    using key [rule_format, OF len(1) k(2)] key [rule_format, OF len(2) k(3)]
    unfolding lay(2) by simp_all
  let ?t = "(ex_sheet [0, 1, 2] 50)\<lparr>rows := PyList [10]\<rparr>"
  let ?st = "ex_store\<lparr>col_at := (col_at ex_store)(2 := (ex_col ''v'' False False)\<lparr>width := None\<rparr>)\<rparr>"
  let ?q = "calcColLayout ex_opts ex_getMaxWidth ?t ?st"
  have d: "?q = (fst ?q, snd ?q)" by simp
  have lay2: "visibleColLayout (fst ?q) = [(0, 0, 20), (1, 21, 20), (2, 42, 5)]"
    "rightVisibleColIndex (fst ?q) = 2"
    by (simp_all add: calcColLayout_def calcColLayout_body_def ex_defs sheet_defs Let_def upt_conv_Cons)
  have v: "visibleCols ?t ?st = [0, 1, 2]" "visibleRows ?t ?st = [10]"
    "width (col_at ?st 2) = None"
    by (simp_all add: ex_defs sheet_defs)
  have ne: "visibleCols ?t ?st \<noteq> []" unfolding v(1) by simp
  from calcColLayout_layout [OF d] ne
  obtain r where r: "rightVisibleColIndex (fst ?q) = int r"
    and dl: "\<forall>j \<le> r. (\<forall>i < j. visibleCols ?t ?st ! i \<noteq> visibleCols ?t ?st ! j)
               \<and> width (col_at ?st (visibleCols ?t ?st ! j)) = None \<and> visibleRows ?t ?st \<noteq> [] \<longrightarrow>
             col_at (snd ?q) (visibleCols ?t ?st ! j)
               = (col_at ?st (visibleCols ?t ?st ! j))
                   \<lparr>width := Some (delayed_width ex_opts ex_getMaxWidth ?st (visibleCols ?t ?st)
                       (visibleRows ?t ?st) j)\<rparr>"
    by blast
  from r lay2(2) have r2: "r = 2" by simp
  have dist: "\<forall>i < 2. [0, 1, 2 :: nat] ! i \<noteq> [0, 1, 2] ! 2"
    by (simp add: less_Suc_eq numeral_2_eq_2)
  from dl [rule_format, of 2] dist
  have "col_at (snd ?q) 2
      = (col_at ?st 2)\<lparr>width := Some (delayed_width ex_opts ex_getMaxWidth ?st [0, 1, 2] [10] 2)\<rparr>"
    unfolding v r2 by simp
  then have w: "width (col_at (snd ?q) 2) = Some 5"
    by (simp add: delayed_width_def ex_opts_def ex_getMaxWidth_def)
  from lay keys lay2(1) w show ?thesis by simp
qed


section \<open>Properties of \<^verbatim>\<open>Sheet.__copy__\<close>\<close>

lemma copy_columns_spec:
  "copy_columns cc cs st = (cs', st') \<Longrightarrow>
     cs' = [next_addr st ..< next_addr st + length cs]
     \<and> next_addr st' = next_addr st + length cs
     \<and> (\<forall>a < next_addr st. col_at st' a = col_at st a)
     \<and> (\<forall>i < length cs. cs ! i < next_addr st \<longrightarrow> col_at st' (next_addr st + i) = cc (col_at st (cs ! i)))"
proof (induction cs arbitrary: st cs' st')
  case Nil
  then show ?case by simp
next
  case (Cons c cs)
  let ?n = "next_addr st"
  let ?st1 = "st\<lparr>col_at := (col_at st)(?n := cc (col_at st c)), next_addr := Suc ?n\<rparr>"
  obtain cs2 st2 where r: "copy_columns cc cs ?st1 = (cs2, st2)"
    by (cases "copy_columns cc cs ?st1")
  from Cons.prems r have eq: "cs' = ?n # cs2" "st' = st2"
    by (simp_all add: new_column_def)
  from Cons.IH [OF r] have IH:
    "cs2 = [Suc ?n ..< Suc ?n + length cs]"
    "next_addr st2 = Suc ?n + length cs"
    "\<forall>a < Suc ?n. col_at st2 a = col_at ?st1 a"
    "\<forall>i < length cs. cs ! i < Suc ?n \<longrightarrow> col_at st2 (Suc ?n + i) = cc (col_at ?st1 (cs ! i))"
    by simp_all
  have "[?n ..< ?n + length (c # cs)] = ?n # [Suc ?n ..< Suc ?n + length cs]"
    by (subst upt_rec) simp
  then have 1: "cs' = [?n ..< ?n + length (c # cs)]"
    using IH(1) eq(1) by simp
  have 2: "next_addr st' = ?n + length (c # cs)"
    using IH(2) eq by simp
  have 3: "\<forall>a < ?n. col_at st' a = col_at st a"
    using IH(3) eq by simp
  have 4: "\<forall>i < length (c # cs). (c # cs) ! i < ?n \<longrightarrow>
      col_at st' (?n + i) = cc (col_at st ((c # cs) ! i))"
  proof (intro allI impI)
    fix i assume i: "i < length (c # cs)" "(c # cs) ! i < ?n"
    show "col_at st' (?n + i) = cc (col_at st ((c # cs) ! i))"
    proof (cases i)
      case 0
      have "col_at st2 ?n = col_at ?st1 ?n" using IH(3) by simp
      then show ?thesis using 0 eq by simp
    next
      case (Suc j)
      with i have j: "j < length cs" "cs ! j < ?n" by simp_all
      then have "col_at st2 (Suc ?n + j) = cc (col_at ?st1 (cs ! j))" using IH(4) by simp
      moreover have "col_at ?st1 (cs ! j) = col_at st (cs ! j)" using j(2) by simp
      ultimately show ?thesis using Suc eq by simp
    qed
  qed
  from 1 2 3 4 show ?case by blast
qed

lemma fold_keycol:
  "next_addr (fold (\<lambda>c st. st\<lparr>col_at := (col_at st)(c := (col_at st c)\<lparr>keycol := True\<rparr>)\<rparr>) cols st) = next_addr st
   \<and> col_at (fold (\<lambda>c st. st\<lparr>col_at := (col_at st)(c := (col_at st c)\<lparr>keycol := True\<rparr>)\<rparr>) cols st) a
       = (if a \<in> set cols then (col_at st a)\<lparr>keycol := True\<rparr> else col_at st a)"
  by (induction cols arbitrary: st) auto

lemma fold_col_sheet:
  "next_addr (fold (\<lambda>c st. st\<lparr>col_at := (col_at st)(c := (col_at st c)\<lparr>col_sheet := v\<rparr>)\<rparr>) cols st) = next_addr st
   \<and> col_at (fold (\<lambda>c st. st\<lparr>col_at := (col_at st)(c := (col_at st c)\<lparr>col_sheet := v\<rparr>)\<rparr>) cols st) a
       = (if a \<in> set cols then (col_at st a)\<lparr>col_sheet := v\<rparr> else col_at st a)"
  by (induction cols arbitrary: st) auto

lemma setKeys_spec:
  "next_addr (setKeys cols st) = next_addr st"
  "col_at (setKeys cols st) a = (if a \<in> set cols then (col_at st a)\<lparr>keycol := True\<rparr> else col_at st a)"
  unfolding setKeys_def using fold_keycol [of cols st a] by simp_all

lemma recalc_spec:
  "next_addr (recalc s st) = next_addr st"
  "col_at (recalc s st) a =
     (if a \<in> set (columns s) then (col_at st a)\<lparr>col_sheet := Some (sid s)\<rparr> else col_at st a)"
  unfolding recalc_def using fold_col_sheet [of "Some (sid s)" "columns s" st a] by simp_all


text \<open>
  Claim C6, as stated: the copy has no rows, copies of the key columns first and of the
  other columns after them, and its cursor and scroll positions are reset to the
  origin.  \<^verbatim>\<open>__copy__\<close> resets \<^verbatim>\<open>topRowIndex\<close> and \<^verbatim>\<open>cursorRowIndex\<close> only:
  \<^verbatim>\<open>cursorVisibleColIndex\<close> and \<^verbatim>\<open>leftVisibleColIndex\<close> are those of the object that
  the base class's copy returns.  With a base copy that keeps the attributes, as the
  copy of a Python object does, the copy of a sheet with the cursor on visible column
  2 and the left offset 1 has them there too.
\<close>

theorem Sheet_copy_keeps_column_cursor:
  "cursorVisibleColIndex (fst (Sheet_copy (\<lambda>s. s) (\<lambda>c. c)
       ((ex_sheet [0, 1, 2] 80)\<lparr>cursorVisibleColIndex := 2, leftVisibleColIndex := 1\<rparr>) ex_store)) = 2
   \<and> leftVisibleColIndex (fst (Sheet_copy (\<lambda>s. s) (\<lambda>c. c)
       ((ex_sheet [0, 1, 2] 80)\<lparr>cursorVisibleColIndex := 2, leftVisibleColIndex := 1\<rparr>) ex_store)) = 1"
  by (simp add: Sheet_copy_def Let_def split: prod.splits)

text \<open>
  Claim C6, amended: the copy has zero rows; its columns are new objects (the addresses
  from \<open>next_addr\<close> on, none of them a column of the original), first a copy of each
  column of \<^verbatim>\<open>keyCols\<close> (the visible key columns) with \<open>keycol\<close> set, then a copy of
  every other column in the order of \<^verbatim>\<open>columns\<close> (a hidden column that carries the
  key flag is among these); every copy refers to the new sheet; no column of the
  original changes; \<^verbatim>\<open>topRowIndex\<close> and \<^verbatim>\<open>cursorRowIndex\<close> are 0, and the cursor column
  and the left offset are those of the base class's copy.
\<close>

theorem Sheet_copy_design:
  assumes copy: "Sheet_copy base_copy copy_col s st = (ret, st')"
    and old: "\<forall>c \<in> set (columns s). c < next_addr st"
  shows "rows ret = PyList []
    \<and> columns ret = [next_addr st ..< next_addr st + length (columns s)]
    \<and> (\<forall>i < length (keyCols s st).
          col_at st' (next_addr st + i)
            = (copy_col (col_at st (keyCols s st ! i)))\<lparr>keycol := True, col_sheet := Some (sid (base_copy s))\<rparr>)
    \<and> (\<forall>i < length (filter (\<lambda>c. c \<notin> set (keyCols s st)) (columns s)).
          col_at st' (next_addr st + length (keyCols s st) + i)
            = (copy_col (col_at st (filter (\<lambda>c. c \<notin> set (keyCols s st)) (columns s) ! i)))
                \<lparr>col_sheet := Some (sid (base_copy s))\<rparr>)
    \<and> (\<forall>a < next_addr st. col_at st' a = col_at st a)
    \<and> topRowIndex ret = 0 \<and> cursorRowIndex ret = 0
    \<and> cursorVisibleColIndex ret = cursorVisibleColIndex (base_copy s)
    \<and> leftVisibleColIndex ret = leftVisibleColIndex (base_copy s)"
proof -
  let ?n = "next_addr st"
  let ?ks = "keyCols s st"
  let ?ns = "filter (\<lambda>c. c \<notin> set ?ks) (columns s)"
  obtain ks' st1 where k: "copy_columns copy_col ?ks st = (ks', st1)"
    by (cases "copy_columns copy_col ?ks st")
  let ?st2 = "setKeys ks' st1"
  obtain ns' st3 where n: "copy_columns copy_col ?ns ?st2 = (ns', st3)"
    by (cases "copy_columns copy_col ?ns ?st2")
  let ?ret3 = "(base_copy s)\<lparr>rows := PyList [], columns := ks' @ ns'\<rparr>"
  from copy k n have ret: "ret = ?ret3\<lparr>topRowIndex := 0, cursorRowIndex := 0\<rparr>"
    and st': "st' = recalc ?ret3 st3"
    by (simp_all add: Sheet_copy_def Let_def)
  from copy_columns_spec [OF k] have K:
    "ks' = [?n ..< ?n + length ?ks]" "next_addr st1 = ?n + length ?ks"
    "\<forall>a < ?n. col_at st1 a = col_at st a"
    "\<forall>i < length ?ks. ?ks ! i < ?n \<longrightarrow> col_at st1 (?n + i) = copy_col (col_at st (?ks ! i))"
    by simp_all
  have n2: "next_addr ?st2 = ?n + length ?ks"
    using K(2) by (simp add: setKeys_spec)
  from copy_columns_spec [OF n] have N:
    "ns' = [?n + length ?ks ..< ?n + length ?ks + length ?ns]"
    "\<forall>a < ?n + length ?ks. col_at st3 a = col_at ?st2 a"
    "\<forall>i < length ?ns. ?ns ! i < ?n + length ?ks \<longrightarrow>
        col_at st3 (?n + length ?ks + i) = copy_col (col_at ?st2 (?ns ! i))"
    unfolding n2 by simp_all
  have len: "length ?ks + length ?ns = length (columns s)"
  proof -
    have "?ks = filter (\<lambda>c. c \<in> set ?ks) (columns s)"
      by (simp add: keyCols_def) (metis (mono_tags, lifting) filter_cong)
    then have "length ?ks + length ?ns
        = length (filter (\<lambda>c. c \<in> set ?ks) (columns s)) + length (filter (\<lambda>c. \<not> c \<in> set ?ks) (columns s))"
      by simp
    then show ?thesis by (simp only: sum_length_filter_compl)
  qed
  have cols: "columns ret = [?n ..< ?n + length (columns s)]"
  proof -
    have "ks' @ ns' = [?n ..< ?n + length ?ks + length ?ns]"
      unfolding K(1) N(1) by (simp add: upt_add_eq_append [symmetric])
    then show ?thesis using ret len by (simp add: add.assoc)
  qed
  have setc: "set (columns ?ret3) = {?n ..< ?n + length (columns s)}"
    using cols ret by simp
  have ksub: "\<And>i. i < length ?ks \<Longrightarrow> ?ks ! i < ?n"
    using old by (metis filter_is_subset keyCols_def nth_mem subsetD)
  have nsub: "\<And>i. i < length ?ns \<Longrightarrow> ?ns ! i < ?n"
    using old by (metis filter_is_subset nth_mem subsetD)
  have A: "\<forall>i < length ?ks. col_at st' (?n + i)
            = (copy_col (col_at st (?ks ! i)))\<lparr>keycol := True, col_sheet := Some (sid (base_copy s))\<rparr>"
  proof (intro allI impI)
    fix i assume i: "i < length ?ks"
    then have in_ks': "?n + i \<in> set ks'" unfolding K(1) by simp
    have "col_at st3 (?n + i) = col_at ?st2 (?n + i)" using N(2) i by simp
    also have "\<dots> = (col_at st1 (?n + i))\<lparr>keycol := True\<rparr>"
      using in_ks' by (simp add: setKeys_spec)
    also have "col_at st1 (?n + i) = copy_col (col_at st (?ks ! i))"
      using K(4) i ksub by simp
    finally have "col_at st3 (?n + i) = (copy_col (col_at st (?ks ! i)))\<lparr>keycol := True\<rparr>" .
    moreover have "?n + i \<in> set (columns ?ret3)" using setc i len by simp
    ultimately show "col_at st' (?n + i)
            = (copy_col (col_at st (?ks ! i)))\<lparr>keycol := True, col_sheet := Some (sid (base_copy s))\<rparr>"
      unfolding st' by (simp add: recalc_spec)
  qed
  have B: "\<forall>i < length ?ns. col_at st' (?n + length ?ks + i)
            = (copy_col (col_at st (?ns ! i)))\<lparr>col_sheet := Some (sid (base_copy s))\<rparr>"
  proof (intro allI impI)
    fix i assume i: "i < length ?ns"
    have lt: "?ns ! i < ?n" using nsub [OF i] .
    then have notin: "?ns ! i \<notin> set ks'" unfolding K(1) by simp
    have "col_at st3 (?n + length ?ks + i) = copy_col (col_at ?st2 (?ns ! i))"
      using N(3) i lt by simp
    also have "col_at ?st2 (?ns ! i) = col_at st1 (?ns ! i)"
      using notin by (simp add: setKeys_spec)
    also have "\<dots> = col_at st (?ns ! i)" using K(3) lt by simp
    finally have "col_at st3 (?n + length ?ks + i) = copy_col (col_at st (?ns ! i))" .
    moreover have "?n + length ?ks + i \<in> set (columns ?ret3)" using setc i len by simp
    ultimately show "col_at st' (?n + length ?ks + i)
            = (copy_col (col_at st (?ns ! i)))\<lparr>col_sheet := Some (sid (base_copy s))\<rparr>"
      unfolding st' by (simp add: recalc_spec)
  qed
  have C: "\<forall>a < ?n. col_at st' a = col_at st a"
  proof (intro allI impI)
    fix a assume a: "a < ?n"
    then have "a \<notin> set (columns ?ret3)" "a \<notin> set ks'" using setc K(1) by simp_all
    then have "col_at st' a = col_at st1 a"
      unfolding st' using N(2) a by (simp add: recalc_spec setKeys_spec)
    then show "col_at st' a = col_at st a" using K(3) a by simp
  qed
  from cols A B C ret show ?thesis by simp
qed


theorem Sheet_copy_design_witness:
  "columns (fst (Sheet_copy (\<lambda>s. s\<lparr>sid := 1\<rparr>) (\<lambda>c. c) (ex_sheet [2, 4, 0] 80) ex_store)) = [5, 6, 7]
   \<and> col_at (snd (Sheet_copy (\<lambda>s. s\<lparr>sid := 1\<rparr>) (\<lambda>c. c) (ex_sheet [2, 4, 0] 80) ex_store)) 5
        = (ex_col ''k1'' True False)\<lparr>col_sheet := Some 1\<rparr>
   \<and> col_at (snd (Sheet_copy (\<lambda>s. s\<lparr>sid := 1\<rparr>) (\<lambda>c. c) (ex_sheet [2, 4, 0] 80) ex_store)) 0
        = ex_col ''k1'' True False
   \<and> rows (fst (Sheet_copy (\<lambda>s. s\<lparr>sid := 1\<rparr>) (\<lambda>c. c) (ex_sheet [2, 4, 0] 80) ex_store)) = PyList []"
proof -
  let ?bc = "\<lambda>s :: nat sheet. s\<lparr>sid := 1\<rparr>"
  let ?s = "ex_sheet [2, 4, 0] 80"
  let ?r = "Sheet_copy ?bc (\<lambda>c. c) ?s ex_store"
  have c: "?r = (fst ?r, snd ?r)" by simp
  have old: "\<forall>c \<in> set (columns ?s). c < next_addr ex_store"
    by (simp add: ex_sheet_def ex_store_def)
  have ks: "keyCols ?s ex_store = [0]"
    by (simp add: ex_defs sheet_defs)
  have n: "next_addr ex_store = 5" "columns ?s = [2, 4, 0]" "sid (?bc ?s) = 1"
    "col_at ex_store 0 = ex_col ''k1'' True False"
    by (simp_all add: ex_sheet_def ex_store_def)
  from Sheet_copy_design [OF c old] show ?thesis
    unfolding ks by (simp add: n ex_col_def upt_conv_Cons)
qed


section \<open>Properties of \<^verbatim>\<open>JsonSheet.addRow\<close>\<close>

lemma py_insert_end: "py_insert xs (int (length xs)) x = xs @ [x]"
  by (simp add: py_insert_def)

lemma addRow_keys_spec:
  "addRow_keys mk kvs m s st = (m', s', st') \<Longrightarrow> distinct (map fst kvs) \<Longrightarrow>
     columns s' = columns s @ [next_addr st ..< next_addr st + length (filter (\<lambda>(k, v). m k = None) kvs)]
     \<and> next_addr st' = next_addr st + length (filter (\<lambda>(k, v). m k = None) kvs)
     \<and> rows s' = rows s \<and> sid s' = sid s
     \<and> (\<forall>a < next_addr st. col_at st' a = col_at st a)
     \<and> (\<forall>i < length (filter (\<lambda>(k, v). m k = None) kvs).
           col_at st' (next_addr st + i)
             = (mk (fst (filter (\<lambda>(k, v). m k = None) kvs ! i)) (snd (filter (\<lambda>(k, v). m k = None) kvs ! i)))
                 \<lparr>col_sheet := Some (sid s)\<rparr>
           \<and> m' (fst (filter (\<lambda>(k, v). m k = None) kvs ! i)) = Some (next_addr st + i))
     \<and> (\<forall>k. k \<notin> fst ` set (filter (\<lambda>(k, v). m k = None) kvs) \<longrightarrow> m' k = m k)"
proof (induction kvs arbitrary: m s st)
  case Nil
  then show ?case by simp
next
  case (Cons kv kvs)
  obtain k v where kv: "kv = (k, v)" by (cases kv)
  from Cons.prems(2) kv have dist: "distinct (map fst kvs)" and knot: "k \<notin> fst ` set kvs"
    by simp_all
  show ?case
  proof (cases "m k = None")
    case False
    then have "addRow_keys mk kvs m s st = (m', s', st')"
      using Cons.prems(1) kv by auto
    from Cons.IH [OF this dist] False show ?thesis
      unfolding kv by simp
  next
    case True
    let ?n = "next_addr st"
    let ?c = "(mk k v)\<lparr>col_sheet := Some (sid s)\<rparr>"
    let ?st2 = "st\<lparr>next_addr := Suc ?n, col_at := (col_at st)(?n := ?c)\<rparr>"
    let ?s1 = "s\<lparr>columns := columns s @ [?n]\<rparr>"
    let ?m1 = "m(k \<mapsto> ?n)"
    let ?new = "filter (\<lambda>(k, v). m k = None) kvs"
    have step: "addRow_keys mk kvs ?m1 ?s1 ?st2 = (m', s', st')"
      using Cons.prems(1) kv True by (simp add: new_column_def addColumn_def Let_def py_insert_end)
    have same: "filter (\<lambda>(k', v). ?m1 k' = None) kvs = ?new"
      using knot by (intro filter_cong refl) force
    have newk: "filter (\<lambda>(k, v). m k = None) (kv # kvs) = (k, v) # ?new"
      using True kv by simp
    from Cons.IH [OF step dist] have IH:
      "columns s' = columns ?s1 @ [Suc ?n ..< Suc ?n + length ?new]"
      "next_addr st' = Suc ?n + length ?new"
      "rows s' = rows s" "sid s' = sid s"
      "\<forall>a < Suc ?n. col_at st' a = col_at ?st2 a"
      "\<forall>i < length ?new. col_at st' (Suc ?n + i) = (mk (fst (?new ! i)) (snd (?new ! i)))\<lparr>col_sheet := Some (sid s)\<rparr>
            \<and> m' (fst (?new ! i)) = Some (Suc ?n + i)"
      "\<forall>k'. k' \<notin> fst ` set ?new \<longrightarrow> m' k' = ?m1 k'"
      unfolding same by simp_all
    have knew: "k \<notin> fst ` set ?new" using knot by auto
    have 1: "columns s' = columns s @ [?n ..< ?n + length ((k, v) # ?new)]"
    proof -
      have "[?n ..< ?n + length ((k, v) # ?new)] = ?n # [Suc ?n ..< Suc ?n + length ?new]"
        by (subst upt_rec) simp
      then show ?thesis using IH(1) by simp
    qed
    have 2: "next_addr st' = ?n + length ((k, v) # ?new)" using IH(2) by simp
    have 3: "\<forall>a < ?n. col_at st' a = col_at st a" using IH(5) by simp
    have 4: "\<forall>i < length ((k, v) # ?new).
           col_at st' (?n + i) = (mk (fst (((k, v) # ?new) ! i)) (snd (((k, v) # ?new) ! i)))\<lparr>col_sheet := Some (sid s)\<rparr>
           \<and> m' (fst (((k, v) # ?new) ! i)) = Some (?n + i)"
    proof (intro allI impI)
      fix i assume i: "i < length ((k, v) # ?new)"
      show "col_at st' (?n + i) = (mk (fst (((k, v) # ?new) ! i)) (snd (((k, v) # ?new) ! i)))\<lparr>col_sheet := Some (sid s)\<rparr>
           \<and> m' (fst (((k, v) # ?new) ! i)) = Some (?n + i)"
      proof (cases i)
        case 0
        have "col_at st' ?n = col_at ?st2 ?n" using IH(5) by simp
        moreover have "m' k = ?m1 k" using IH(7) knew by blast
        ultimately show ?thesis using 0 by simp
      next
        case (Suc j)
        with i have "j < length ?new" by simp
        with IH(6) show ?thesis using Suc by simp
      qed
    qed
    have 5: "\<forall>k'. k' \<notin> fst ` set ((k, v) # ?new) \<longrightarrow> m' k' = m k'"
      using IH(7) by auto
    from 1 2 3 4 5 IH(3,4) show ?thesis unfolding newk by blast
  qed
qed


lemma addRow_keys_frame:
  "addRow_keys mk kvs m s st = (m', s', st') \<Longrightarrow> s' = s\<lparr>columns := columns s'\<rparr>"
proof (induction kvs arbitrary: m s st)
  case Nil
  then show ?case by simp
next
  case (Cons kv kvs)
  obtain k v where kv: "kv = (k, v)" by (cases kv)
  show ?case
  proof (cases "m k = None")
    case False
    then have "addRow_keys mk kvs m s st = (m', s', st')"
      using Cons.prems kv by auto
    from Cons.IH [OF this] show ?thesis .
  next
    case True
    let ?n = "next_addr st"
    let ?st2 = "st\<lparr>next_addr := Suc ?n,
        col_at := (col_at st)(?n := (mk k v)\<lparr>col_sheet := Some (sid s)\<rparr>)\<rparr>"
    let ?s1 = "s\<lparr>columns := columns s @ [?n]\<rparr>"
    have "addRow_keys mk kvs (m(k \<mapsto> ?n)) ?s1 ?st2 = (m', s', st')"
      using Cons.prems kv True by (simp add: new_column_def addColumn_def Let_def py_insert_end)
    from Cons.IH [OF this] have "s' = ?s1\<lparr>columns := columns s'\<rparr>" .
    then show ?thesis by simp
  qed
qed

lemma addRow_keys_dom:
  assumes "addRow_keys mk kvs m s st = (m', s', st')" and "distinct (map fst kvs)"
  shows "dom m' = dom m \<union> fst ` set kvs"
proof -
  let ?new = "filter (\<lambda>(k, v). m k = None) kvs"
  from addRow_keys_spec [OF assms]
  have new: "\<forall>i < length ?new. m' (fst (?new ! i)) = Some (next_addr st + i)"
    and old: "\<forall>k. k \<notin> fst ` set ?new \<longrightarrow> m' k = m k"
    by simp_all
  have in_new: "m' k \<noteq> None" if "k \<in> fst ` set ?new" for k
  proof -
    from that obtain x where x: "x \<in> set ?new" "fst x = k" by blast
    then obtain i where "i < length ?new" "?new ! i = x"
      unfolding in_set_conv_nth by blast
    with new x(2) show ?thesis by auto
  qed
  have new_keys: "fst ` set ?new = {k \<in> fst ` set kvs. m k = None}"
    by force
  show ?thesis
  proof (intro set_eqI iffI)
    fix k
    assume "k \<in> dom m'"
    then show "k \<in> dom m \<union> fst ` set kvs"
      using old [rule_format, of k] new_keys by (cases "k \<in> fst ` set ?new") auto
  next
    fix k
    assume "k \<in> dom m \<union> fst ` set kvs"
    then show "k \<in> dom m'"
      using old [rule_format, of k] in_new [of k] new_keys
      by (cases "k \<in> fst ` set ?new") auto
  qed
qed

text \<open>
  Claim C10: \<^verbatim>\<open>JsonSheet.addRow\<close> appends the row (or inserts it at the index); for a
  dictionary it creates one new column for each key not in \<^verbatim>\<open>colnames\<close>, in the
  dictionary's key order, and returns the row; for any other row it creates no column
  and returns \<^verbatim>\<open>None\<close>.  The keys seen are those that \<^verbatim>\<open>colnames\<close> maps: after the
  call \<^verbatim>\<open>colnames\<close> maps each new key to its new column and every other key as before,
  so that its keys are those it had and those of the row, and a later row creates no
  column for any of them.  Of the sheet only \<^verbatim>\<open>rows\<close> and \<^verbatim>\<open>columns\<close> change.  The sheet is one that
  \<^verbatim>\<open>reload\<close> has started to load: \<^verbatim>\<open>rows\<close> is a list and \<^verbatim>\<open>iterload\<close> has set
  \<^verbatim>\<open>colnames\<close>.  The keys of a dictionary are distinct.
\<close>

theorem JsonSheet_addRow_spec:
  assumes list: "rows (js_sheet js) = PyList xs"
    and names: "colnames js = Some m"
    and keys: "\<forall>kvs. rw = JDict kvs \<longrightarrow> distinct (map fst kvs)"
  shows "\<exists>ret js' st' m'. JsonSheet_addRow mk rw index js st = Inr (ret, js', st')
     \<and> rows (js_sheet js') = PyList (case index of None \<Rightarrow> xs @ [rw] | Some i \<Rightarrow> py_insert xs i rw)
     \<and> (\<forall>a < next_addr st. col_at st' a = col_at st a)
     \<and> (js_sheet js')\<lparr>rows := PyList [], columns := []\<rparr>
           = (js_sheet js)\<lparr>rows := PyList [], columns := []\<rparr>
     \<and> (case rw of
          JDict kvs \<Rightarrow>
            ret = Some rw
            \<and> columns (js_sheet js') = columns (js_sheet js)
                 @ [next_addr st ..< next_addr st + length (filter (\<lambda>(k, v). m k = None) kvs)]
            \<and> next_addr st' = next_addr st + length (filter (\<lambda>(k, v). m k = None) kvs)
            \<and> (\<forall>i < length (filter (\<lambda>(k, v). m k = None) kvs).
                 col_at st' (next_addr st + i)
                   = (mk (fst (filter (\<lambda>(k, v). m k = None) kvs ! i))
                         (snd (filter (\<lambda>(k, v). m k = None) kvs ! i)))
                       \<lparr>col_sheet := Some (sid (js_sheet js))\<rparr>
                 \<and> m' (fst (filter (\<lambda>(k, v). m k = None) kvs ! i)) = Some (next_addr st + i))
            \<and> colnames js' = Some m'
            \<and> (\<forall>k. k \<notin> fst ` set (filter (\<lambda>(k, v). m k = None) kvs) \<longrightarrow> m' k = m k)
            \<and> dom m' = dom m \<union> fst ` set kvs
        | _ \<Rightarrow> ret = None \<and> columns (js_sheet js') = columns (js_sheet js) \<and> st' = st
                \<and> colnames js' = colnames js)"
proof -
  let ?xs' = "case index of None \<Rightarrow> xs @ [rw] | Some i \<Rightarrow> py_insert xs i rw"
  let ?s1 = "(js_sheet js)\<lparr>rows := PyList ?xs'\<rparr>"
  have ar: "addRow rw index (js_sheet js) = Inr (rw, ?s1)"
    using list by (simp add: addRow_def split: option.splits)
  show ?thesis
  proof (cases "\<exists>kvs. rw = JDict kvs")
    case False
    then show ?thesis
      using ar names by (cases rw) (simp_all add: JsonSheet_addRow_def)
  next
    case True
    then obtain kvs where rw: "rw = JDict kvs" by blast
    with keys have dist: "distinct (map fst kvs)" by simp
    obtain m' s2 st' where k: "addRow_keys mk kvs m ?s1 st = (m', s2, st')"
      by (cases "addRow_keys mk kvs m ?s1 st")
    have res: "JsonSheet_addRow mk rw index js st
        = Inr (Some rw, js\<lparr>js_sheet := s2, colnames := Some m'\<rparr>, st')"
      using ar names rw k by (simp add: JsonSheet_addRow_def)
    let ?new = "filter (\<lambda>(k, v). m k = None) kvs"
    from addRow_keys_spec [OF k dist] have K:
      "columns s2 = columns (js_sheet js) @ [next_addr st ..< next_addr st + length ?new]"
      "next_addr st' = next_addr st + length ?new"
      "rows s2 = PyList ?xs'"
      "\<forall>a < next_addr st. col_at st' a = col_at st a"
      "\<forall>i < length ?new.
           col_at st' (next_addr st + i)
             = (mk (fst (?new ! i)) (snd (?new ! i)))\<lparr>col_sheet := Some (sid (js_sheet js))\<rparr>
           \<and> m' (fst (?new ! i)) = Some (next_addr st + i)"
      "\<forall>k. k \<notin> fst ` set ?new \<longrightarrow> m' k = m k"
      by simp_all
    have D: "dom m' = dom m \<union> fst ` set kvs"
      by (rule addRow_keys_dom [OF k dist])
    have F: "s2\<lparr>rows := PyList [], columns := []\<rparr>
        = (js_sheet js)\<lparr>rows := PyList [], columns := []\<rparr>"
      by (subst addRow_keys_frame [OF k]) simp
    have res': "JsonSheet_addRow mk (JDict kvs) index js st
        = Inr (Some (JDict kvs), js\<lparr>js_sheet := s2, colnames := Some m'\<rparr>, st')"
      using res rw by simp
    show ?thesis
      unfolding rw
      apply (rule exI [of _ "Some (JDict kvs)"])
      apply (rule exI [of _ "js\<lparr>js_sheet := s2, colnames := Some m'\<rparr>"])
      apply (rule exI [of _ st'])
      apply (rule exI [of _ m'])
      using K D F res' rw apply (simp split: option.splits)
      done
  qed
qed

theorem JsonSheet_addRow_spec_witness:
  "\<exists>js1 st1 js2 st2 js3.
      JsonSheet_addRow (\<lambda>k v. ex_col k False False)
        (JDict [(''k1'', JNum 1), (''b'', JStr ''x''), (''a'', JNull)]) None ex_json_sheet ex_store
        = Inr (Some (JDict [(''k1'', JNum 1), (''b'', JStr ''x''), (''a'', JNull)]), js1, st1)
      \<and> rows (js_sheet js1) = PyList [JDict [(''k1'', JNum 1), (''b'', JStr ''x''), (''a'', JNull)]]
      \<and> columns (js_sheet js1) = [0, 5, 6]
      \<and> name (col_at st1 5) = ''b'' \<and> name (col_at st1 6) = ''a''
      \<and> JsonSheet_addRow (\<lambda>k v. ex_col k False False)
           (JDict [(''b'', JNum 2), (''c'', JNull), (''k1'', JNum 3)]) None js1 st1
        = Inr (Some (JDict [(''b'', JNum 2), (''c'', JNull), (''k1'', JNum 3)]), js2, st2)
      \<and> rows (js_sheet js2) = PyList [JDict [(''k1'', JNum 1), (''b'', JStr ''x''), (''a'', JNull)],
                                       JDict [(''b'', JNum 2), (''c'', JNull), (''k1'', JNum 3)]]
      \<and> columns (js_sheet js2) = [0, 5, 6, 7]
      \<and> name (col_at st2 7) = ''c''
      \<and> JsonSheet_addRow (\<lambda>k v. ex_col k False False) (JNum 3) None ex_json_sheet ex_store
        = Inr (None, js3, ex_store)
      \<and> rows (js_sheet js3) = PyList [JNum 3] \<and> columns (js_sheet js3) = [0]
      \<and> colnames js3 = colnames ex_json_sheet"
proof -
  let ?mk = "\<lambda>k v. ex_col k False False"
  let ?kvs = "[(''k1'', JNum 1), (''b'', JStr ''x''), (''a'', JNull)]"
  let ?row = "JDict ?kvs"
  let ?kvs2 = "[(''b'', JNum 2), (''c'', JNull), (''k1'', JNum 3)]"
  let ?row2 = "JDict ?kvs2"
  let ?m = "[''k1'' \<mapsto> (0::nat)]"
  have 1: "rows (js_sheet ex_json_sheet) = PyList []" by (simp add: ex_json_sheet_def)
  have 2: "colnames ex_json_sheet = Some ?m" by (simp add: ex_json_sheet_def)
  have 3: "\<forall>kvs. ?row = JDict kvs \<longrightarrow> distinct (map fst kvs)" by simp
  have f: "filter (\<lambda>(k, v). ?m k = None) ?kvs = [(''b'', JStr ''x''), (''a'', JNull)]"
    by simp
  have n: "next_addr ex_store = 5" "columns (js_sheet ex_json_sheet) = [0]"
    by (simp_all add: ex_store_def ex_json_sheet_def)
  from JsonSheet_addRow_spec [OF 1 2 3, of ?mk None ex_store]
  obtain ret js1 st1 m1 where r:
    "JsonSheet_addRow ?mk ?row None ex_json_sheet ex_store = Inr (ret, js1, st1)"
    "rows (js_sheet js1) = PyList [?row]"
    "ret = Some ?row"
    "columns (js_sheet js1) = [0] @ [5 ..< 5 + length [(''b'', JStr ''x''), (''a'', JNull)]]"
    "next_addr st1 = 5 + length [(''b'', JStr ''x''), (''a'', JNull)]"
    "\<forall>i < length [(''b'', JStr ''x''), (''a'', JNull)].
        col_at st1 (5 + i)
          = (ex_col (fst ([(''b'', JStr ''x''), (''a'', JNull)] ! i)) False False)
              \<lparr>col_sheet := Some (sid (js_sheet ex_json_sheet))\<rparr>
        \<and> m1 (fst ([(''b'', JStr ''x''), (''a'', JNull)] ! i)) = Some (5 + i)"
    "colnames js1 = Some m1"
    "\<forall>k. k \<notin> fst ` set [(''b'', JStr ''x''), (''a'', JNull)] \<longrightarrow> m1 k = ?m k"
    unfolding f n by auto
  from r(6) [rule_format, of 0] r(6) [rule_format, of 1]
  have c1: "col_at st1 5 = (ex_col ''b'' False False)\<lparr>col_sheet := Some (sid (js_sheet ex_json_sheet))\<rparr>"
    "col_at st1 6 = (ex_col ''a'' False False)\<lparr>col_sheet := Some (sid (js_sheet ex_json_sheet))\<rparr>"
    and m1: "m1 ''b'' = Some 5" "m1 ''a'' = Some 6"
    by simp_all
  from r(8) [rule_format, of "''c''"] r(8) [rule_format, of "''k1''"]
  have m1': "m1 ''c'' = None" "m1 ''k1'' = Some 0" by simp_all
  have names1: "name (col_at st1 5) = ''b''" "name (col_at st1 6) = ''a''"
    using c1 by (simp_all add: ex_col_def)
  have cols1: "columns (js_sheet js1) = [0, 5, 6]"
    using r(4) by (simp add: upt_conv_Cons)
  have n1: "next_addr st1 = 7" using r(5) by simp
  have 4: "\<forall>kvs. ?row2 = JDict kvs \<longrightarrow> distinct (map fst kvs)" by simp
  note [simp] = m1 m1' n1 cols1
  note inst = JsonSheet_addRow_spec [OF r(2) r(7) 4, of ?mk None st1, simplified]
  from inst obtain ret2 js2 st2 where q:
    "JsonSheet_addRow ?mk ?row2 None js1 st1 = Inr (ret2, js2, st2)"
    "rows (js_sheet js2) = PyList [?row, ?row2]"
    "ret2 = Some ?row2"
    "columns (js_sheet js2) = [0, 5, 6, 7]"
    "col_at st2 7 = (ex_col ''c'' False False)\<lparr>col_sheet := Some (sid (js_sheet js1))\<rparr>"
    by auto
  from q(5) have names2: "name (col_at st2 7) = ''c''"
    by (simp add: ex_col_def)
  note cols2 = q(4)
  have 5: "\<forall>kvs. JNum 3 = JDict kvs \<longrightarrow> distinct (map fst kvs)" by simp
  from JsonSheet_addRow_spec [OF 1 2 5, of ?mk None ex_store]
  obtain js3 where p:
    "JsonSheet_addRow ?mk (JNum 3) None ex_json_sheet ex_store = Inr (None, js3, ex_store)"
    "rows (js_sheet js3) = PyList [JNum 3]" "columns (js_sheet js3) = [0]"
    "colnames js3 = colnames ex_json_sheet"
    unfolding n by auto
  from r(1,2,3) cols1 names1 q(1,2,3) cols2 names2 p show ?thesis by blast
qed


section \<open>Properties of colorizer resolution\<close>

lemma colorize_loop_stack:
  "fst (colorize_loop call ctx cs (stack, caught)) = stack @ List.map_filter (applied call ctx) cs"
  by (induction cs arbitrary: stack caught)
     (auto simp: applied_def split: sum.splits)

lemma colorize_loop_cong:
  "\<forall>c \<in> set cs. call' (func c) ctx' = call (func c) ctx \<Longrightarrow>
     colorize_loop call' ctx' cs acc = colorize_loop call ctx cs acc"
  by (induction cs arbitrary: acc) (auto split: sum.splits)

text \<open>
  Claim C5, as stated: \<^verbatim>\<open>colorize\<close> gives the same style on every call for the same
  rules and inputs, applying the colorizers by descending precedence and, among equal
  precedence, in declaration order.  \<^verbatim>\<open>getColorizers\<close> sorts a \<^verbatim>\<open>set\<close>, so among
  equal precedence the order is the set's iteration order.  For the six colorizers of
  \<^verbatim>\<open>Sheet\<close>, a set that iterates in the reverse of the insertion order applies
  \<open>color_selected_row\<close> before \<open>color_current_col\<close> before \<open>color_default_hdr\<close>,
  where the declaration order is the opposite; and two runs whose sets iterate
  differently build different colour stacks from the same rules and inputs.
\<close>

theorem colorize_set_order:
  "set (rev (concat [Sheet_colorizers])) = set (concat [Sheet_colorizers])
   \<and> distinct (rev (concat [Sheet_colorizers]))
   \<and> map coloropt (getColorizers rev [Sheet_colorizers])
        = [Some ''color_selected_row'', Some ''color_current_col'', Some ''color_default_hdr'',
           Some ''color_error'', Some ''color_key_col'', Some ''color_default'']
   \<and> map coloropt (sort_key (\<lambda>x. - precedence x) Sheet_colorizers)
        = [Some ''color_default_hdr'', Some ''color_current_col'', Some ''color_selected_row'',
           Some ''color_key_col'', Some ''color_error'', Some ''color_default'']
   \<and> fst (colorize_loop (\<lambda>f ctx. Inr (PBool True)) () (getColorizers rev [Sheet_colorizers]) ([], []))
        \<noteq> fst (colorize_loop (\<lambda>f ctx. Inr (PBool True)) () (getColorizers (\<lambda>xs. xs) [Sheet_colorizers]) ([], []))"
proof (intro conjI)
  show "set (rev (concat [Sheet_colorizers])) = set (concat [Sheet_colorizers])"
    by (simp only: set_rev)
qed (simp_all add: Sheet_colorizers_def getColorizers_def)

text \<open>
  Claim C5, amended: for every fixed set of rules, every fixed iteration order of the
  set that \<^verbatim>\<open>getColorizers\<close> collects them in, and every fixed input, \<^verbatim>\<open>colorize\<close>
  returns the same style: the colorizers applied are the declared ones, each once, in
  order of precedence descending and, among equal precedence, in the iteration order of
  the set; the stack handed to \<^verbatim>\<open>resolve_colors\<close> holds, in that order, the colour
  of every colorizer whose predicate returned a true value; and the result depends on
  the inputs only through what the predicates of the declared colorizers return.
\<close>

theorem colorize_precedence_order:
  assumes elems: "set (set_iter (concat decls)) = set (concat decls)"
    and dist: "distinct (set_iter (concat decls))"
  shows "sorted (map (\<lambda>c. - precedence c) (getColorizers set_iter decls))
    \<and> set (getColorizers set_iter decls) = set (concat decls)
    \<and> distinct (getColorizers set_iter decls)
    \<and> (\<forall>p. filter (\<lambda>c. precedence c = p) (getColorizers set_iter decls)
            = filter (\<lambda>c. precedence c = p) (set_iter (concat decls)))
    \<and> colorize call resolve_colors set_iter decls ctx
        = (resolve_colors (List.map_filter (applied call ctx) (getColorizers set_iter decls)),
           snd (colorize_loop call ctx (getColorizers set_iter decls) ([], [])))
    \<and> (\<forall>call' ctx'. (\<forall>c \<in> set (concat decls). call' (func c) ctx' = call (func c) ctx)
          \<longrightarrow> colorize call' resolve_colors set_iter decls ctx' = colorize call resolve_colors set_iter decls ctx)"
proof (intro conjI)
  show "sorted (map (\<lambda>c. - precedence c) (getColorizers set_iter decls))"
    by (simp add: getColorizers_def)
  show s: "set (getColorizers set_iter decls) = set (concat decls)"
    using elems by (simp add: getColorizers_def)
  show "distinct (getColorizers set_iter decls)"
    using dist by (simp add: getColorizers_def)
  show "\<forall>p. filter (\<lambda>c. precedence c = p) (getColorizers set_iter decls)
            = filter (\<lambda>c. precedence c = p) (set_iter (concat decls))"
  proof
    fix p
    have "filter (\<lambda>c. - precedence c = - p) (sort_key (\<lambda>x. - precedence x) (set_iter (concat decls)))
        = filter (\<lambda>c. - precedence c = - p) (set_iter (concat decls))"
      by (rule sort_key_stable)
    then show "filter (\<lambda>c. precedence c = p) (getColorizers set_iter decls)
            = filter (\<lambda>c. precedence c = p) (set_iter (concat decls))"
      by (simp add: getColorizers_def)
  qed
  show "colorize call resolve_colors set_iter decls ctx
        = (resolve_colors (List.map_filter (applied call ctx) (getColorizers set_iter decls)),
           snd (colorize_loop call ctx (getColorizers set_iter decls) ([], [])))"
    using colorize_loop_stack [of call ctx "getColorizers set_iter decls" "[]" "[]"]
    by (cases "colorize_loop call ctx (getColorizers set_iter decls) ([], [])") (simp add: colorize_def)
  show "\<forall>call' ctx'. (\<forall>c \<in> set (concat decls). call' (func c) ctx' = call (func c) ctx)
          \<longrightarrow> colorize call' resolve_colors set_iter decls ctx' = colorize call resolve_colors set_iter decls ctx"
  proof (intro allI impI)
    fix call' :: "nat \<Rightarrow> 'd \<Rightarrow> py_error + pyval" and ctx'
    assume "\<forall>c \<in> set (concat decls). call' (func c) ctx' = call (func c) ctx"
    then have "\<forall>c \<in> set (getColorizers set_iter decls). call' (func c) ctx' = call (func c) ctx"
      unfolding s .
    then have "colorize_loop call' ctx' (getColorizers set_iter decls) ([], [])
        = colorize_loop call ctx (getColorizers set_iter decls) ([], [])"
      by (rule colorize_loop_cong)
    then show "colorize call' resolve_colors set_iter decls ctx' = colorize call resolve_colors set_iter decls ctx"
      by (simp add: colorize_def)
  qed
qed

theorem colorize_precedence_order_witness:
  "sorted (map (\<lambda>c. - precedence c) (getColorizers rev [Sheet_colorizers]))
   \<and> map func (filter (\<lambda>c. precedence c = 2) (getColorizers rev [Sheet_colorizers])) = [4, 1, 0]
   \<and> fst (colorize (\<lambda>f ctx. if f = 4 then Inl ValueError else Inr (PBool (f \<noteq> 1))) (\<lambda>stack. stack)
             rev [Sheet_colorizers] ())
        = [PStr ''color_default_hdr'', PStr ''color_error'', PStr ''color_key_col'', PStr ''color_default'']"
proof -
  have e: "set (rev (concat [Sheet_colorizers])) = set (concat [Sheet_colorizers])"
    by (simp only: set_rev)
  have d: "distinct (rev (concat [Sheet_colorizers]))"
    by (simp add: Sheet_colorizers_def)
  have g: "getColorizers rev [Sheet_colorizers]
      = [\<lparr>precedence = 2, coloropt = Some ''color_selected_row'', func = 4\<rparr>,
         \<lparr>precedence = 2, coloropt = Some ''color_current_col'', func = 1\<rparr>,
         \<lparr>precedence = 2, coloropt = Some ''color_default_hdr'', func = 0\<rparr>,
         \<lparr>precedence = 1, coloropt = Some ''color_error'', func = 5\<rparr>,
         \<lparr>precedence = 1, coloropt = Some ''color_key_col'', func = 2\<rparr>,
         \<lparr>precedence = 0, coloropt = Some ''color_default'', func = 3\<rparr>]"
    by (simp add: Sheet_colorizers_def getColorizers_def)
  let ?call = "\<lambda>(f::nat) (ctx::unit). if f = 4 then Inl ValueError else Inr (PBool (f \<noteq> 1))"
  note th = colorize_precedence_order [where set_iter = rev and decls = "[Sheet_colorizers]"
      and call = ?call and resolve_colors = "\<lambda>stack. stack" and ctx = "()", OF e d]
  from th have 1: "sorted (map (\<lambda>c. - precedence c) (getColorizers rev [Sheet_colorizers]))"
    by (elim conjE)
  from th have "\<forall>p. filter (\<lambda>c. precedence c = p) (getColorizers rev [Sheet_colorizers])
           = filter (\<lambda>c. precedence c = p) (rev (concat [Sheet_colorizers]))"
    by (elim conjE)
  then have 2: "filter (\<lambda>c. precedence c = 2) (getColorizers rev [Sheet_colorizers])
           = filter (\<lambda>c. precedence c = 2) (rev (concat [Sheet_colorizers]))"
    by (rule spec)
  from th have "colorize ?call (\<lambda>stack. stack) rev [Sheet_colorizers] ()
        = (List.map_filter (applied ?call ()) (getColorizers rev [Sheet_colorizers]),
           snd (colorize_loop ?call () (getColorizers rev [Sheet_colorizers]) ([], [])))"
    by (elim conjE)
  then have 3: "fst (colorize ?call (\<lambda>stack. stack) rev [Sheet_colorizers] ())
        = List.map_filter (applied ?call ()) (getColorizers rev [Sheet_colorizers])"
    by simp
  have 4: "List.map_filter (applied ?call ()) (getColorizers rev [Sheet_colorizers])
      = [PStr ''color_default_hdr'', PStr ''color_error'', PStr ''color_key_col'', PStr ''color_default'']"
    unfolding g by (simp add: applied_def)
  from 1 2 3 4 show ?thesis
    by (simp add: Sheet_colorizers_def)
qed

section \<open>Properties of the command recorder\<close>

lemma isLoggable_for_iff: "isLoggable_for ns ln = (\<forall>n \<in> set ns. \<not> startswith ln n)"
  by (induction ns) auto

lemma annotate_err_longname [simp]: "longname (annotate_err err cmd) = longname cmd"
  by (simp add: annotate_err_def)

text \<open>
  Claim C4: when a command finishes, its pending entry is discarded if and only if the
  command was escaped, or its longname starts with one of the non-logged prefixes, or
  the acting sheet is the command log itself; otherwise the entry is appended to the
  command log and to the acting sheet's own log (twice to the same log if the two are
  one object).  The entry appended is the pending one, after the statement for \<open>err\<close>.
  The two logs hold their rows in lists, as \<^verbatim>\<open>CommandLog(..., rows=[])\<close> creates them.
\<close>

theorem afterExecSheet_logs:
  assumes active: "activeCommand w = Some cmd"
    and l1: "rows (w_logs w self) = PyList xs"
    and l2: "rows (w_logs w (cmdlog_sheet w vs)) = PyList ys"
  shows "\<exists>w'. afterExecSheet self vs escaped err w = Inr w' \<and> activeCommand w' = None
     \<and> (if escaped \<or> (\<exists>n \<in> set nonLogged. startswith (longname cmd) n) \<or> self = vs
         then w_logs w' = w_logs w \<and> sessionlog w' = sessionlog w
         else (\<forall>l. items (rows (w_logs w' l))
                  = items (rows (w_logs w l))
                    @ replicate (length (filter (\<lambda>x. x = l) [self, cmdlog_sheet w vs])) (annotate_err err cmd))
              \<and> annotate_err err cmd \<in> set (items (rows (w_logs w' self)))
              \<and> annotate_err err cmd \<in> set (items (rows (w_logs w' (cmdlog_sheet w vs)))))"
proof (cases "escaped \<or> (\<exists>n \<in> set nonLogged. startswith (longname cmd) n) \<or> self = vs")
  case True
  then have "\<not> (\<not> escaped \<and> isLoggableCommand (longname (annotate_err err cmd)) \<and> self \<noteq> vs)"
    by (auto simp: isLoggableCommand_def isLoggable_for_iff)
  then have "afterExecSheet self vs escaped err w
      = Inr (w\<lparr>activeCommand := Some (annotate_err err cmd), activeCommand := None\<rparr>)"
    using active by (simp only: afterExecSheet_def Let_def option.case if_False)
  then show ?thesis
    using True by simp
next
  case False
  then have cond: "\<not> escaped \<and> isLoggableCommand (longname (annotate_err err cmd)) \<and> self \<noteq> vs"
    by (auto simp: isLoggableCommand_def isLoggable_for_iff)
  let ?e = "annotate_err err cmd"
  let ?cl = "cmdlog_sheet w vs"
  let ?w1 = "w\<lparr>activeCommand := Some ?e\<rparr>"
  let ?w2 = "?w1\<lparr>w_logs := (w_logs ?w1)(self := (w_logs w self)\<lparr>rows := PyList (xs @ [?e])\<rparr>)\<rparr>"
  have a1: "log_addRow self ?e ?w1 = Inr ?w2"
    using l1 by (simp add: log_addRow_def addRow_def)
  obtain zs where zs: "rows (w_logs ?w2 ?cl) = PyList zs"
    "zs = (if ?cl = self then xs @ [?e] else ys)"
    using l2 by simp
  let ?w3 = "?w2\<lparr>w_logs := (w_logs ?w2)(?cl := (w_logs ?w2 ?cl)\<lparr>rows := PyList (zs @ [?e])\<rparr>)\<rparr>"
  have a2: "log_addRow (cmdlog_sheet ?w2 vs) ?e ?w2 = Inr ?w3"
    using zs(1) by (simp add: log_addRow_def addRow_def)
  let ?w4 = "if cmdlog_histfile (w_opts ?w3) \<noteq> [] then ?w3\<lparr>sessionlog := sessionlog ?w3 @ [?e]\<rparr> else ?w3"
  have res: "afterExecSheet self vs escaped err w = Inr (?w4\<lparr>activeCommand := None\<rparr>)"
    using active cond a1 a2 by (simp add: afterExecSheet_def Let_def)
  have logs: "w_logs (?w4\<lparr>activeCommand := None\<rparr>) = w_logs ?w3" by simp
  have rows: "\<forall>l. items (rows (w_logs ?w3 l))
                  = items (rows (w_logs w l)) @ replicate (length (filter (\<lambda>x. x = l) [self, ?cl])) ?e"
    using l1 l2 zs by auto
  have "?e \<in> set (items (rows (w_logs ?w3 self)))" "?e \<in> set (items (rows (w_logs ?w3 ?cl)))"
    using rows by simp_all
  with rows logs res False show ?thesis
    by (simp del: fun_upd_apply)
qed

theorem afterExecSheet_logs_witness:
  "(\<exists>w'. afterExecSheet 7 1 False [] (ex_world []) = Inr w' \<and> activeCommand w' = None
      \<and> items (rows (w_logs w' 7)) = [ex_entry ''data'' ''key-col'']
      \<and> items (rows (w_logs w' 101)) = [ex_entry ''data'' ''key-col'']
      \<and> items (rows (w_logs w' 102)) = [])
   \<and> (\<exists>w'. afterExecSheet 7 1 False []
              ((ex_world [])\<lparr>activeCommand := Some (ex_entry ''data'' ''go-left'')\<rparr>) = Inr w'
          \<and> activeCommand w' = None \<and> w_logs w' = w_logs (ex_world []))"
proof -
  let ?w = "ex_world []"
  let ?v = "(ex_world [])\<lparr>activeCommand := Some (ex_entry ''data'' ''go-left'')\<rparr>"
  have a: "activeCommand ?w = Some (ex_entry ''data'' ''key-col'')"
    "rows (w_logs ?w 7) = PyList []" "rows (w_logs ?w (cmdlog_sheet ?w 1)) = PyList []"
    "cmdlog_sheet ?w 1 = 101"
    by (simp_all add: ex_world_def ex_log_def)
  have b: "activeCommand ?v = Some (ex_entry ''data'' ''go-left'')"
    "rows (w_logs ?v 7) = PyList []" "rows (w_logs ?v (cmdlog_sheet ?v 1)) = PyList []"
    "w_logs ?v = w_logs ?w"
    by (simp_all add: ex_world_def ex_log_def)
  have p1: "\<not> (\<exists>n \<in> set nonLogged. startswith (longname (ex_entry ''data'' ''key-col'')) n)"
    by (simp add: nonLogged_def startswith_def ex_entry_def)
  have p2: "\<exists>n \<in> set nonLogged. startswith (longname (ex_entry ''data'' ''go-left'')) n"
    by (simp add: nonLogged_def startswith_def ex_entry_def)
  have e: "annotate_err [] (ex_entry ''data'' ''key-col'') = ex_entry ''data'' ''key-col''"
    by (simp add: annotate_err_def)
  from afterExecSheet_logs [OF a(1) a(2) a(3), of False "[]"] p1
  obtain w' where 1: "afterExecSheet 7 1 False [] ?w = Inr w'" "activeCommand w' = None"
    "\<forall>l. items (rows (w_logs w' l))
         = items (rows (w_logs ?w l))
           @ replicate (length (filter (\<lambda>x. x = l) [7, 101])) (ex_entry ''data'' ''key-col'')"
    unfolding a(4) e by auto
  have l: "items (rows (w_logs ?w 7)) = []" "items (rows (w_logs ?w 101)) = []"
    "items (rows (w_logs ?w 102)) = []"
    by (simp_all add: ex_world_def ex_log_def)
  from 1(3) [rule_format, of 7] 1(3) [rule_format, of 101] 1(3) [rule_format, of 102] l
  have 2: "items (rows (w_logs w' 7)) = [ex_entry ''data'' ''key-col'']"
    "items (rows (w_logs w' 101)) = [ex_entry ''data'' ''key-col'']"
    "items (rows (w_logs w' 102)) = []"
    by simp_all
  from afterExecSheet_logs [OF b(1) b(2) b(3), of False "[]"] p2
  obtain v' where 3: "afterExecSheet 7 1 False [] ?v = Inr v'" "activeCommand v' = None"
    "w_logs v' = w_logs ?v"
    by auto
  from 1(1,2) 2 3 b(4) show ?thesis by auto
qed

section \<open>Properties of \<^verbatim>\<open>moveToRow\<close> and \<^verbatim>\<open>moveToCol\<close>\<close>

text \<open>
  With \<^verbatim>\<open>replay_movement\<close> off both functions jump to the resolved index; with it
  on, and the cursor not at the target, both move the cursor by one step and raise.
\<close>

lemma moveToRow_jump:
  assumes "\<not> replay_movement opts" and "getRowIndexFromStr opts tstr rowstr vs st = Some rowidx"
  shows "moveToRow opts tstr rowstr vs st = (vs\<lparr>cursorRowIndex := rowidx\<rparr>, Inr True)"
  using assms by (simp add: moveToRow_def)

lemma moveToCol_jump:
  assumes "\<not> replay_movement opts" and "py_int colstr = Some vcolidx"
  shows "moveToCol opts colstr vs st = (vs\<lparr>cursorVisibleColIndex := vcolidx\<rparr>, Inr True)"
  using assms by (simp add: moveToCol_def)

lemma moveToRow_animated:
  assumes "replay_movement opts" and "getRowIndexFromStr opts tstr rowstr vs st = Some rowidx"
    and "cursorRowIndex vs \<noteq> rowidx"
  shows "snd (moveToRow opts tstr rowstr vs st) = Inl (NameError ''self'')
     \<and> \<bar>cursorRowIndex (fst (moveToRow opts tstr rowstr vs st)) - cursorRowIndex vs\<bar> = 1"
  using assms by (simp add: moveToRow_def)

lemma moveToCol_animated:
  assumes "replay_movement opts" and "py_int colstr = Some vcolidx"
    and "cursorVisibleColIndex vs \<noteq> vcolidx"
  shows "snd (moveToCol opts colstr vs st) = Inl (NameError ''self'')
     \<and> \<bar>cursorVisibleColIndex (fst (moveToCol opts colstr vs st)) - cursorVisibleColIndex vs\<bar> = 1"
  using assms by (simp add: moveToCol_def)

lemma py_int_2: "py_int ''2'' = Some 2"
  by (simp add: py_int_def int_strip_def int_space_def is_digit_def digits_val_def)

text \<open>
  Claim C7: with \<^verbatim>\<open>replay_movement\<close> enabled, \<^verbatim>\<open>moveToRow\<close> and \<^verbatim>\<open>moveToCol\<close>
  step the cursor to the target, waiting between steps, and return \<^verbatim>\<open>True\<close>;
  disabled, they jump.  On a sheet of three rows with the cursor on row 0 and the row
  reference \<open>2\<close>, \<^verbatim>\<open>moveToRow\<close> with the option enabled moves the cursor to row 1
  and raises \<^verbatim>\<open>NameError\<close>; \<^verbatim>\<open>moveToCol\<close> does the same on the columns.  With
  the option disabled the cursor jumps to row 2 and \<^verbatim>\<open>True\<close> is returned.
\<close>

theorem moveToRow_replay_movement:
  "moveToRow (ex_opts\<lparr>replay_movement := True\<rparr>) (\<lambda>c r. []) ''2''
      ((ex_sheet [2] 80)\<lparr>rows := PyList [10, 11, 12]\<rparr>) ex_store
     = ((ex_sheet [2] 80)\<lparr>rows := PyList [10, 11, 12], cursorRowIndex := 1\<rparr>, Inl (NameError ''self''))
   \<and> moveToCol (ex_opts\<lparr>replay_movement := True\<rparr>) ''2''
      ((ex_sheet [0, 1, 2] 80)\<lparr>rows := PyList [10, 11, 12]\<rparr>) ex_store
     = ((ex_sheet [0, 1, 2] 80)\<lparr>rows := PyList [10, 11, 12], cursorVisibleColIndex := 1\<rparr>,
        Inl (NameError ''self''))
   \<and> moveToRow ex_opts (\<lambda>c r. []) ''2''
      ((ex_sheet [2] 80)\<lparr>rows := PyList [10, 11, 12]\<rparr>) ex_store
     = ((ex_sheet [2] 80)\<lparr>rows := PyList [10, 11, 12], cursorRowIndex := 2\<rparr>, Inr True)"
  by (simp add: moveToRow_def moveToCol_def getRowIndexFromStr_def rowkey_str_def py_int_2
      ex_opts_def ex_sheet_def ex_store_def ex_col_def keyCols_def)

section \<open>Properties of \<^verbatim>\<open>replay_sync\<close>\<close>

text \<open>
  \<^verbatim>\<open>cancel\<close> clears the replay and releases the semaphore, so a wait that follows a
  cancel ends; a loop that finds the replay cleared returns at once; and whenever the
  loop returns without an exception of its own, the replay is cleared and the entries
  replayed extend those replayed before.
\<close>

lemma cancel_fields [simp]:
  "currentReplay (cancel w) = None" "currentReplayRow (cancel w) = None"
  "semaphore (cancel w) = Suc (semaphore w)" "paused (cancel w) = paused w"
  "w_logs (cancel w) = w_logs w"
  by (simp_all add: cancel_def advance_def)

lemma status_fields [simp]:
  "currentReplay (status m w) = currentReplay w" "w_logs (status m w) = w_logs w"
  "currentReplay (exceptionCaught e w) = currentReplay w" "w_logs (exceptionCaught e w) = w_logs w"
  by (simp_all add: status_def exceptionCaught_def)

lemma wait_delay_released:
  assumes "semaphore (ui api w) > 0"
  shows "wait_delay api w = Some ((ui api w)\<lparr>semaphore := semaphore (ui api w) - 1\<rparr>)"
proof -
  have "delay api w = Some (True, (ui api w)\<lparr>semaphore := semaphore (ui api w) - 1\<rparr>)"
    using assms by (simp add: delay_def Let_def acquire_blocking.simps [of "ui api" "ui api w"])
  then show ?thesis by (subst wait_delay.simps) simp
qed

lemma replay_loop_cancelled:
  assumes "currentReplay w = None"
  shows "\<exists>w'. replay_loop api self tr w = Some (w', tr, ReturnedNone) \<and> currentReplay w' = None"
  using assms by (subst replay_loop.simps) simp

lemma replay_loop_not_running_aux:
  assumes "replay_loop api self tr w = Some y"
  shows "case y of (w', tr', res) \<Rightarrow>
       (\<forall>e. res \<noteq> Raised e) \<longrightarrow> currentReplay w' = None \<and> (\<exists>more. tr' = tr @ more)"
  using assms
proof (induction rule: replay_loop.raw_induct [rotated 1, consumes 1])
  case (1 f api self tr w y)
  note IH = 1(1) and body = 1(2)
  have IH': "\<And>a b c d w' tr' res. f a b c d = Some (w', tr', res) \<Longrightarrow> \<forall>e. res \<noteq> Raised e
      \<Longrightarrow> currentReplay w' = None \<and> (\<exists>more. tr' = c @ more)"
  proof -
    fix a b c d w' tr' res
    assume "f a b c d = Some (w', tr', res)" and r: "\<forall>e. res \<noteq> Raised e"
    from IH [OF this(1)] r show "currentReplay w' = None \<and> (\<exists>more. tr' = c @ more)"
      by simp
  qed
  from body show ?case
    by (auto split: if_splits sum.splits option.splits prod.splits simp: Let_def dest: IH')
qed

lemma replay_loop_not_running:
  assumes "replay_loop api self tr w = Some (w', tr', res)" and "\<forall>e. res \<noteq> Raised e"
  shows "currentReplay w' = None \<and> (\<exists>more. tr' = tr @ more)"
  using replay_loop_not_running_aux [OF assms(1)] assms(2) by simp


text \<open>
  One pass of the loop: an exception that leaves \<^verbatim>\<open>replayOne\<close>, an escaped command, a
  completed command; and what makes \<^verbatim>\<open>replayOne\<close> raise.
\<close>

lemma replay_loop_raise:
  assumes "cursorRowIndex (w_logs w self) < int (length (items (rows (w_logs w self))))"
    and "currentReplay w \<noteq> None"
    and "cursorRow (w_logs w self) = Inr (Some r)"
    and "replayOne api self r (w\<lparr>statuses := []\<rparr>) = (w2, Inl e)"
  shows "replay_loop api self tr w =
      Some (status ''replay canceled'' (exceptionCaught e (cancel w2)), tr @ [r], ReturnedTrue)"
  using assms by (subst replay_loop.simps) simp

lemma replay_loop_escaped:
  assumes "cursorRowIndex (w_logs w self) < int (length (items (rows (w_logs w self))))"
    and "currentReplay w \<noteq> None"
    and "cursorRow (w_logs w self) = Inr (Some r)"
    and "replayOne api self r (w\<lparr>statuses := []\<rparr>) = (w2, Inr True)"
  shows "replay_loop api self tr w = Some (cancel w2, tr @ [r], ReturnedTrue)"
  using assms by (subst replay_loop.simps) simp

lemma replay_loop_step:
  assumes "cursorRowIndex (w_logs w self) < int (length (items (rows (w_logs w self))))"
    and "currentReplay w \<noteq> None"
    and "cursorRow (w_logs w self) = Inr (Some r)"
    and "replayOne api self r (w\<lparr>statuses := []\<rparr>) = (w2, Inr False)"
    and "sync api (w2\<lparr>w_logs := (w_logs w2)(self := (w_logs w2 self)
            \<lparr>cursorRowIndex := cursorRowIndex (w_logs w2 self) + 1\<rparr>)\<rparr>) = (w4, None)"
    and "wait_delay api w4 = Some w5"
  shows "replay_loop api self tr w = replay_loop api self (tr @ [r]) w5"
  using assms by (subst replay_loop.simps) auto

lemma moveToReplayContext_unresolved:
  assumes "sheet r \<noteq> []"
    and "getSheet api w (sheet r) = None
       \<or> (\<exists>h. getSheet api w (sheet r) = Some h \<and> \<not> sheet_true api w h)
       \<or> (\<exists>h. getSheet api w (sheet r) = Some h \<and> sheet_true api w h \<and> row r \<noteq> []
              \<and> getRowIndexFromStr (w_opts w) (typed_str api) (row r) (w_sheets w h) (w_store w) = None)
       \<or> (\<exists>h wr. getSheet api w (sheet r) = Some h \<and> sheet_true api w h
              \<and> (if row r \<noteq> [] then ctx_moveToRow api h r w else (w, None)) = (wr, None)
              \<and> col r \<noteq> [] \<and> py_int (col r) = None
              \<and> indexMatch (visibleCols (w_sheets wr h) (w_store wr))
                    (\<lambda>c. col r = name (col_at (w_store wr) c)) = None)"
  shows "\<exists>w2 m. moveToReplayContext api r w = (w2, Inl (VdError m))"
  using assms
  by (auto simp: moveToReplayContext_def ctx_moveToRow_def ctx_moveToCol_def moveToRow_def
      moveToCol_def split: prod.splits option.splits if_splits sum.splits)

lemma replayOne_context_raises:
  assumes "longname r \<noteq> ''set-option''"
    and "moveToReplayContext api r (w\<lparr>currentReplayRow := Some r\<rparr>) = (w2, Inl e)"
  shows "replayOne api self r w = (w2, Inl e)"
  using assms by (simp add: replayOne_def)

lemma replayOne_command_raises:
  assumes "longname r \<noteq> ''set-option''"
    and "moveToReplayContext api r (w\<lparr>currentReplayRow := Some r\<rparr>) = (w2, Inr vs)"
    and "exec_command api
           (case vs of None \<Rightarrow> self | Some h \<Rightarrow> if sheet_true api w2 h then h else self) r
           (let w3 = (case vs of None \<Rightarrow> w2
                      | Some h \<Rightarrow> if sheet_true api w2 h then push api h w2 else w2)
            in if comment r \<noteq> [] then status (comment r) w3 else w3) = (w5, Inl e)"
  shows "replayOne api self r w = (w5, Inl e)"
  using assms by (auto simp: replayOne_def Let_def split: option.splits)

lemma replay_loop_stop_in_wait:
  assumes "cursorRowIndex (w_logs w self) < int (length (items (rows (w_logs w self))))"
    and "currentReplay w \<noteq> None"
    and "cursorRow (w_logs w self) = Inr (Some r)"
    and "replayOne api self r (w\<lparr>statuses := []\<rparr>) = (w2, Inr False)"
    and "sync api (w2\<lparr>w_logs := (w_logs w2)(self := (w_logs w2 self)
            \<lparr>cursorRowIndex := cursorRowIndex (w_logs w2 self) + 1\<rparr>)\<rparr>) = (w4, None)"
    and "ui api w4 = cancel w0"
  shows "\<exists>w'. replay_loop api self tr w = Some (w', tr @ [r], ReturnedNone) \<and> currentReplay w' = None"
proof -
  let ?w5 = "(ui api w4)\<lparr>semaphore := semaphore (ui api w4) - 1\<rparr>"
  have wd: "wait_delay api w4 = Some ?w5"
    by (rule wait_delay_released) (simp add: assms(6))
  have "currentReplay ?w5 = None" by (simp add: assms(6))
  from replay_loop_cancelled [OF this, of api self "tr @ [r]"]
  show ?thesis by (simp add: replay_loop_step [OF assms(1-5) wd])
qed

lemma replayOne_command_escaped:
  assumes "longname r \<noteq> ''set-option''"
    and "moveToReplayContext api r (w\<lparr>currentReplayRow := Some r\<rparr>) = (w2, Inr vs)"
    and "exec_command api
           (case vs of None \<Rightarrow> self | Some h \<Rightarrow> if sheet_true api w2 h then h else self) r
           (let w3 = (case vs of None \<Rightarrow> w2
                      | Some h \<Rightarrow> if sheet_true api w2 h then push api h w2 else w2)
            in if comment r \<noteq> [] then status (comment r) w3 else w3) = (w5, Inr True)"
  shows "\<exists>w6. replayOne api self r w = (w6, Inr True)"
  using assms by (auto simp: replayOne_def replayOne_end_def Let_def split: option.splits)

lemma replayOne_set_option_raises:
  assumes "longname r = ''set-option''"
    and "set_option api r (w\<lparr>currentReplayRow := Some r\<rparr>) = (w2, Some e)"
  shows "\<exists>w6. replayOne api self r w = (w6, Inr True)"
  using assms by (simp add: replayOne_def replayOne_end_def Let_def)

text \<open>
  Claim C3: when a running replay is cancelled in mid-stream, by an explicit stop, by
  a sheet, row or column reference of an entry that does not resolve, or by an
  exception of the replayed command, \<^verbatim>\<open>currentReplay\<close> is left \<^verbatim>\<open>None\<close> and
  \<^verbatim>\<open>replay_sync\<close> returns without running any remaining entry.  The theorem is about
  the loop of \<^verbatim>\<open>replay_sync\<close> at its test, in any state \<open>w\<close> with the entries \<open>tr\<close>
  replayed so far; \<open>w1\<close> is the state in which \<^verbatim>\<open>replayOne\<close> resolves the references of
  the entry \<open>r\<close> under the cursor.  (1) A stop seen at the test: the loop returns and the
  entries replayed stay \<open>tr\<close>.  (2) The interface thread cancels while the loop waits
  after \<open>r\<close>: the loop returns, and \<open>r\<close> is the last entry replayed.  (3) The sheet, the
  row or the column of \<open>r\<close> does not resolve: the loop returns \<^verbatim>\<open>True\<close>, and \<open>r\<close> is the
  last entry handed to \<^verbatim>\<open>replayOne\<close>.  (4) The command of \<open>r\<close> raises: the same.
  (5) The command of \<open>r\<close> reports that it was escaped, which is how a command reports
  an exception that it caught: the same.  (6) \<open>r\<close> is a \<^verbatim>\<open>set-option\<close> entry and
  setting the option raises, which \<^verbatim>\<open>replayOne\<close> catches and reports as escaped: the
  same.  (7) and (8): whatever exception leaves \<^verbatim>\<open>replayOne\<close>, and whenever
  \<^verbatim>\<open>replayOne\<close> returns \<^verbatim>\<open>True\<close>: the same.  In each case the call returns with
  \<^verbatim>\<open>currentReplay\<close> cleared.
\<close>

theorem replay_sync_cancel:
  fixes api :: "('r, 'x) api" and w w1 :: "('r, 'x) world"
  assumes w1: "w1 = w\<lparr>statuses := [], currentReplayRow := Some r\<rparr>"
  shows
    "(currentReplay w = None \<longrightarrow>
        (\<exists>w'. replay_loop api self tr w = Some (w', tr, ReturnedNone) \<and> currentReplay w' = None))
     \<and> (cursorRowIndex (w_logs w self) < int (length (items (rows (w_logs w self))))
          \<and> currentReplay w \<noteq> None \<and> cursorRow (w_logs w self) = Inr (Some r)
          \<and> replayOne api self r (w\<lparr>statuses := []\<rparr>) = (w2, Inr False)
          \<and> sync api (w2\<lparr>w_logs := (w_logs w2)(self := (w_logs w2 self)
                 \<lparr>cursorRowIndex := cursorRowIndex (w_logs w2 self) + 1\<rparr>)\<rparr>) = (w4, None)
          \<and> ui api w4 = cancel w0 \<longrightarrow>
        (\<exists>w'. replay_loop api self tr w = Some (w', tr @ [r], ReturnedNone)
              \<and> currentReplay w' = None))
     \<and> (cursorRowIndex (w_logs w self) < int (length (items (rows (w_logs w self))))
          \<and> currentReplay w \<noteq> None \<and> cursorRow (w_logs w self) = Inr (Some r)
          \<and> longname r \<noteq> ''set-option'' \<and> sheet r \<noteq> []
          \<and> (getSheet api w1 (sheet r) = None
             \<or> (\<exists>h. getSheet api w1 (sheet r) = Some h \<and> sheet_true api w1 h \<and> row r \<noteq> []
                   \<and> getRowIndexFromStr (w_opts w1) (typed_str api) (row r) (w_sheets w1 h)
                        (w_store w1) = None)
             \<or> (\<exists>h wr. getSheet api w1 (sheet r) = Some h \<and> sheet_true api w1 h
                   \<and> (if row r \<noteq> [] then ctx_moveToRow api h r w1 else (w1, None)) = (wr, None)
                   \<and> col r \<noteq> [] \<and> py_int (col r) = None
                   \<and> indexMatch (visibleCols (w_sheets wr h) (w_store wr))
                         (\<lambda>c. col r = name (col_at (w_store wr) c)) = None)) \<longrightarrow>
        (\<exists>w'. replay_loop api self tr w = Some (w', tr @ [r], ReturnedTrue)
              \<and> currentReplay w' = None))
     \<and> (cursorRowIndex (w_logs w self) < int (length (items (rows (w_logs w self))))
          \<and> currentReplay w \<noteq> None \<and> cursorRow (w_logs w self) = Inr (Some r)
          \<and> longname r \<noteq> ''set-option''
          \<and> moveToReplayContext api r w1 = (w3, Inr vs)
          \<and> exec_command api
               (case vs of None \<Rightarrow> self | Some h \<Rightarrow> if sheet_true api w3 h then h else self) r
               (let w' = (case vs of None \<Rightarrow> w3
                          | Some h \<Rightarrow> if sheet_true api w3 h then push api h w3 else w3)
                in if comment r \<noteq> [] then status (comment r) w' else w') = (w5, Inl e) \<longrightarrow>
        (\<exists>w'. replay_loop api self tr w = Some (w', tr @ [r], ReturnedTrue)
              \<and> currentReplay w' = None))
     \<and> (cursorRowIndex (w_logs w self) < int (length (items (rows (w_logs w self))))
          \<and> currentReplay w \<noteq> None \<and> cursorRow (w_logs w self) = Inr (Some r)
          \<and> longname r \<noteq> ''set-option''
          \<and> moveToReplayContext api r w1 = (w3, Inr vs)
          \<and> exec_command api
               (case vs of None \<Rightarrow> self | Some h \<Rightarrow> if sheet_true api w3 h then h else self) r
               (let w' = (case vs of None \<Rightarrow> w3
                          | Some h \<Rightarrow> if sheet_true api w3 h then push api h w3 else w3)
                in if comment r \<noteq> [] then status (comment r) w' else w') = (w5, Inr True) \<longrightarrow>
        (\<exists>w'. replay_loop api self tr w = Some (w', tr @ [r], ReturnedTrue)
              \<and> currentReplay w' = None))
     \<and> (cursorRowIndex (w_logs w self) < int (length (items (rows (w_logs w self))))
          \<and> currentReplay w \<noteq> None \<and> cursorRow (w_logs w self) = Inr (Some r)
          \<and> longname r = ''set-option'' \<and> set_option api r w1 = (w5, Some e) \<longrightarrow>
        (\<exists>w'. replay_loop api self tr w = Some (w', tr @ [r], ReturnedTrue)
              \<and> currentReplay w' = None))
     \<and> (cursorRowIndex (w_logs w self) < int (length (items (rows (w_logs w self))))
          \<and> currentReplay w \<noteq> None \<and> cursorRow (w_logs w self) = Inr (Some r)
          \<and> replayOne api self r (w\<lparr>statuses := []\<rparr>) = (w2, Inl e) \<longrightarrow>
        (\<exists>w'. replay_loop api self tr w = Some (w', tr @ [r], ReturnedTrue)
              \<and> currentReplay w' = None))
     \<and> (cursorRowIndex (w_logs w self) < int (length (items (rows (w_logs w self))))
          \<and> currentReplay w \<noteq> None \<and> cursorRow (w_logs w self) = Inr (Some r)
          \<and> replayOne api self r (w\<lparr>statuses := []\<rparr>) = (w2, Inr True) \<longrightarrow>
        (\<exists>w'. replay_loop api self tr w = Some (w', tr @ [r], ReturnedTrue)
              \<and> currentReplay w' = None))"
proof (intro conjI impI)
  assume "currentReplay w = None"
  then show "\<exists>w'. replay_loop api self tr w = Some (w', tr, ReturnedNone) \<and> currentReplay w' = None"
    by (rule replay_loop_cancelled)
next
  assume a: "cursorRowIndex (w_logs w self) < int (length (items (rows (w_logs w self))))
      \<and> currentReplay w \<noteq> None \<and> cursorRow (w_logs w self) = Inr (Some r)
      \<and> replayOne api self r (w\<lparr>statuses := []\<rparr>) = (w2, Inr False)
      \<and> sync api (w2\<lparr>w_logs := (w_logs w2)(self := (w_logs w2 self)
             \<lparr>cursorRowIndex := cursorRowIndex (w_logs w2 self) + 1\<rparr>)\<rparr>) = (w4, None)
      \<and> ui api w4 = cancel w0"
  show "\<exists>w'. replay_loop api self tr w = Some (w', tr @ [r], ReturnedNone) \<and> currentReplay w' = None"
    by (rule replay_loop_stop_in_wait [where ?w2.0 = w2 and ?w4.0 = w4 and ?w0.0 = w0])
       (use a in blast)+
next
  assume a: "cursorRowIndex (w_logs w self) < int (length (items (rows (w_logs w self))))
      \<and> currentReplay w \<noteq> None \<and> cursorRow (w_logs w self) = Inr (Some r)
      \<and> longname r \<noteq> ''set-option'' \<and> sheet r \<noteq> []
      \<and> (getSheet api w1 (sheet r) = None
         \<or> (\<exists>h. getSheet api w1 (sheet r) = Some h \<and> sheet_true api w1 h \<and> row r \<noteq> []
               \<and> getRowIndexFromStr (w_opts w1) (typed_str api) (row r) (w_sheets w1 h)
                    (w_store w1) = None)
         \<or> (\<exists>h wr. getSheet api w1 (sheet r) = Some h \<and> sheet_true api w1 h
               \<and> (if row r \<noteq> [] then ctx_moveToRow api h r w1 else (w1, None)) = (wr, None)
               \<and> col r \<noteq> [] \<and> py_int (col r) = None
               \<and> indexMatch (visibleCols (w_sheets wr h) (w_store wr))
                     (\<lambda>c. col r = name (col_at (w_store wr) c)) = None))"
  then have "\<exists>w2 m. moveToReplayContext api r w1 = (w2, Inl (VdError m))"
    by (intro moveToReplayContext_unresolved) blast+
  then obtain w2 m where "moveToReplayContext api r w1 = (w2, Inl (VdError m))"
    by blast
  then have "replayOne api self r (w\<lparr>statuses := []\<rparr>) = (w2, Inl (VdError m))"
    using a by (intro replayOne_context_raises) (simp_all add: w1)
  from replay_loop_raise [OF _ _ _ this, of tr] a
  show "\<exists>w'. replay_loop api self tr w = Some (w', tr @ [r], ReturnedTrue) \<and> currentReplay w' = None"
    by simp
next
  assume a: "cursorRowIndex (w_logs w self) < int (length (items (rows (w_logs w self))))
      \<and> currentReplay w \<noteq> None \<and> cursorRow (w_logs w self) = Inr (Some r)
      \<and> longname r \<noteq> ''set-option''
      \<and> moveToReplayContext api r w1 = (w3, Inr vs)
      \<and> exec_command api
           (case vs of None \<Rightarrow> self | Some h \<Rightarrow> if sheet_true api w3 h then h else self) r
           (let w' = (case vs of None \<Rightarrow> w3
                      | Some h \<Rightarrow> if sheet_true api w3 h then push api h w3 else w3)
            in if comment r \<noteq> [] then status (comment r) w' else w') = (w5, Inl e)"
  then have "replayOne api self r (w\<lparr>statuses := []\<rparr>) = (w5, Inl e)"
    by (intro replayOne_command_raises [where vs = vs and ?w2.0 = w3]) (simp_all add: w1)
  from replay_loop_raise [OF _ _ _ this, of tr] a
  show "\<exists>w'. replay_loop api self tr w = Some (w', tr @ [r], ReturnedTrue) \<and> currentReplay w' = None"
    by simp
next
  assume a: "cursorRowIndex (w_logs w self) < int (length (items (rows (w_logs w self))))
      \<and> currentReplay w \<noteq> None \<and> cursorRow (w_logs w self) = Inr (Some r)
      \<and> longname r \<noteq> ''set-option''
      \<and> moveToReplayContext api r w1 = (w3, Inr vs)
      \<and> exec_command api
           (case vs of None \<Rightarrow> self | Some h \<Rightarrow> if sheet_true api w3 h then h else self) r
           (let w' = (case vs of None \<Rightarrow> w3
                      | Some h \<Rightarrow> if sheet_true api w3 h then push api h w3 else w3)
            in if comment r \<noteq> [] then status (comment r) w' else w') = (w5, Inr True)"
  then have "\<exists>w6. replayOne api self r (w\<lparr>statuses := []\<rparr>) = (w6, Inr True)"
    by (intro replayOne_command_escaped [where vs = vs and ?w2.0 = w3 and ?w5.0 = w5])
       (simp_all add: w1)
  then obtain w6 where "replayOne api self r (w\<lparr>statuses := []\<rparr>) = (w6, Inr True)" ..
  from replay_loop_escaped [OF _ _ _ this, of tr] a
  show "\<exists>w'. replay_loop api self tr w = Some (w', tr @ [r], ReturnedTrue) \<and> currentReplay w' = None"
    by simp
next
  assume a: "cursorRowIndex (w_logs w self) < int (length (items (rows (w_logs w self))))
      \<and> currentReplay w \<noteq> None \<and> cursorRow (w_logs w self) = Inr (Some r)
      \<and> longname r = ''set-option'' \<and> set_option api r w1 = (w5, Some e)"
  then have "\<exists>w6. replayOne api self r (w\<lparr>statuses := []\<rparr>) = (w6, Inr True)"
    by (intro replayOne_set_option_raises [where ?w2.0 = w5 and e = e]) (simp_all add: w1)
  then obtain w6 where "replayOne api self r (w\<lparr>statuses := []\<rparr>) = (w6, Inr True)" ..
  from replay_loop_escaped [OF _ _ _ this, of tr] a
  show "\<exists>w'. replay_loop api self tr w = Some (w', tr @ [r], ReturnedTrue) \<and> currentReplay w' = None"
    by simp
next
  assume a: "cursorRowIndex (w_logs w self) < int (length (items (rows (w_logs w self))))
      \<and> currentReplay w \<noteq> None \<and> cursorRow (w_logs w self) = Inr (Some r)
      \<and> replayOne api self r (w\<lparr>statuses := []\<rparr>) = (w2, Inl e)"
  then have "replayOne api self r (w\<lparr>statuses := []\<rparr>) = (w2, Inl e)" by simp
  from replay_loop_raise [OF _ _ _ this, of tr] a
  show "\<exists>w'. replay_loop api self tr w = Some (w', tr @ [r], ReturnedTrue) \<and> currentReplay w' = None"
    by simp
next
  assume a: "cursorRowIndex (w_logs w self) < int (length (items (rows (w_logs w self))))
      \<and> currentReplay w \<noteq> None \<and> cursorRow (w_logs w self) = Inr (Some r)
      \<and> replayOne api self r (w\<lparr>statuses := []\<rparr>) = (w2, Inr True)"
  then have "replayOne api self r (w\<lparr>statuses := []\<rparr>) = (w2, Inr True)" by simp
  from replay_loop_escaped [OF _ _ _ this, of tr] a
  show "\<exists>w'. replay_loop api self tr w = Some (w', tr @ [r], ReturnedTrue) \<and> currentReplay w' = None"
    by simp
qed

theorem replay_sync_cancel_witness:
  "(\<exists>w'. replay_sync ex_api 7 (ex_world [ex_entry ''nosuch'' ''a'', ex_entry ''data'' ''b''])
            = Some (w', [ex_entry ''nosuch'' ''a''], ReturnedTrue) \<and> currentReplay w' = None)
   \<and> (\<exists>w'. replay_sync ex_api 7 (ex_world [ex_entry ''data'' ''boom'', ex_entry ''data'' ''b''])
            = Some (w', [ex_entry ''data'' ''boom''], ReturnedTrue) \<and> currentReplay w' = None)
   \<and> (\<exists>w'. replay_sync (ex_api\<lparr>ui := cancel\<rparr>) 7
              (ex_world [ex_entry ''data'' ''a'', ex_entry ''data'' ''b''])
            = Some (w', [ex_entry ''data'' ''a''], ReturnedNone) \<and> currentReplay w' = None)
   \<and> (\<exists>w'. replay_loop ex_api 7 [] (cancel (ex_world [ex_entry ''data'' ''a'']))
            = Some (w', [], ReturnedNone) \<and> currentReplay w' = None)
   \<and> (\<exists>w'. replay_sync ex_api 7 (ex_world [ex_entry ''data'' ''esc'', ex_entry ''data'' ''b''])
            = Some (w', [ex_entry ''data'' ''esc''], ReturnedTrue) \<and> currentReplay w' = None)
   \<and> (\<exists>w'. replay_sync (ex_api\<lparr>set_option := \<lambda>r w. (w, Some ValueError)\<rparr>) 7
              (ex_world [ex_entry [] ''set-option'', ex_entry ''data'' ''b''])
            = Some (w', [ex_entry [] ''set-option''], ReturnedTrue) \<and> currentReplay w' = None)"
proof (intro conjI)
  let ?start = "\<lambda>es. (ex_world es)\<lparr>w_logs := (w_logs (ex_world es))
      (7 := (w_logs (ex_world es) 7)\<lparr>cursorRowIndex := 0\<rparr>), currentReplay := Some 7\<rparr>"
  let ?a = "[ex_entry ''nosuch'' ''a'', ex_entry ''data'' ''b'']"
  let ?b = "[ex_entry ''data'' ''boom'', ex_entry ''data'' ''b'']"
  let ?c = "[ex_entry ''data'' ''a'', ex_entry ''data'' ''b'']"
  let ?api = "ex_api\<lparr>ui := cancel\<rparr>"
  let ?w1 = "\<lambda>es. (?start es)\<lparr>statuses := [], currentReplayRow := Some (hd es)\<rparr>"
  show "\<exists>w'. replay_sync ex_api 7 (ex_world ?a)
            = Some (w', [ex_entry ''nosuch'' ''a''], ReturnedTrue) \<and> currentReplay w' = None"
    unfolding replay_sync_def
    using replay_sync_cancel [where w = "?start ?a" and ?w1.0 = "?w1 ?a"
        and r = "ex_entry ''nosuch'' ''a''" and api = ex_api and self = 7 and tr = "[]"]
    by (simp add: ex_world_def ex_log_def ex_entry_def ex_api_def cursorRow_def nRows_def)
  show "\<exists>w'. replay_sync ex_api 7 (ex_world ?b)
            = Some (w', [ex_entry ''data'' ''boom''], ReturnedTrue) \<and> currentReplay w' = None"
    unfolding replay_sync_def
    using replay_sync_cancel [where w = "?start ?b" and ?w1.0 = "?w1 ?b"
        and r = "ex_entry ''data'' ''boom''" and api = ex_api and self = 7 and tr = "[]"
        and ?w3.0 = "?w1 ?b" and vs = "Some 1" and ?w5.0 = "?w1 ?b" and e = ValueError]
    by (simp add: ex_world_def ex_log_def ex_entry_def ex_api_def cursorRow_def nRows_def
        moveToReplayContext_def)
  let ?w2 = "fst (replayOne ?api 7 (ex_entry ''data'' ''a'') ((?start ?c)\<lparr>statuses := []\<rparr>))"
  let ?w4 = "?w2\<lparr>w_logs := (w_logs ?w2)(7 := (w_logs ?w2 7)
      \<lparr>cursorRowIndex := cursorRowIndex (w_logs ?w2 7) + 1\<rparr>)\<rparr>"
  show "\<exists>w'. replay_sync ?api 7 (ex_world ?c)
            = Some (w', [ex_entry ''data'' ''a''], ReturnedNone) \<and> currentReplay w' = None"
    unfolding replay_sync_def
    using replay_sync_cancel [where w = "?start ?c" and ?w1.0 = "?w1 ?c"
        and r = "ex_entry ''data'' ''a''" and api = ?api and self = 7 and tr = "[]"
        and ?w2.0 = ?w2 and ?w4.0 = ?w4 and ?w0.0 = ?w4]
    by (simp add: ex_world_def ex_log_def ex_entry_def ex_api_def cursorRow_def nRows_def
        moveToReplayContext_def replayOne_def replayOne_end_def)
  show "\<exists>w'. replay_loop ex_api 7 [] (cancel (ex_world [ex_entry ''data'' ''a'']))
            = Some (w', [], ReturnedNone) \<and> currentReplay w' = None"
    using replay_sync_cancel [where w = "cancel (ex_world [ex_entry ''data'' ''a''])"
        and ?w1.0 = "(cancel (ex_world [ex_entry ''data'' ''a'']))
             \<lparr>statuses := [], currentReplayRow := Some (ex_entry ''data'' ''a'')\<rparr>"
        and r = "ex_entry ''data'' ''a''" and api = ex_api and self = 7 and tr = "[]"]
    by simp
  let ?e = "[ex_entry ''data'' ''esc'', ex_entry ''data'' ''b'']"
  show "\<exists>w'. replay_sync ex_api 7 (ex_world ?e)
            = Some (w', [ex_entry ''data'' ''esc''], ReturnedTrue) \<and> currentReplay w' = None"
    unfolding replay_sync_def
    using replay_sync_cancel [where w = "?start ?e" and ?w1.0 = "?w1 ?e"
        and r = "ex_entry ''data'' ''esc''" and api = ex_api and self = 7 and tr = "[]"
        and ?w3.0 = "?w1 ?e" and vs = "Some 1" and ?w5.0 = "?w1 ?e"]
    by (simp add: ex_world_def ex_log_def ex_entry_def ex_api_def cursorRow_def nRows_def
        moveToReplayContext_def)
  let ?o = "[ex_entry [] ''set-option'', ex_entry ''data'' ''b'']"
  let ?api2 = "ex_api\<lparr>set_option := \<lambda>r w. (w, Some ValueError)\<rparr>"
  show "\<exists>w'. replay_sync ?api2 7 (ex_world ?o)
            = Some (w', [ex_entry [] ''set-option''], ReturnedTrue) \<and> currentReplay w' = None"
    unfolding replay_sync_def
    using replay_sync_cancel [where w = "?start ?o" and ?w1.0 = "?w1 ?o"
        and r = "ex_entry [] ''set-option''" and api = ?api2 and self = 7 and tr = "[]"
        and ?w5.0 = "?w1 ?o" and e = ValueError]
    by (simp add: ex_world_def ex_log_def ex_entry_def ex_api_def cursorRow_def nRows_def)
qed

section \<open>Properties of \<^verbatim>\<open>splitcell\<close>\<close>



lemma tab_isspace [simp]:
  "py_isspace (CHR 0x09)" "py_isspace (CHR '' '')" "py_isspace (CHR 0x0A)" "py_isspace (CHR 0x0D)"
  by (simp_all add: py_isspace_def)





































end
